theory Spec2Isabelle
  imports Main "HOL-Library.AList" "HOL-Library.Sublist"
begin

section \<open>JavaScript values\<close>

text \<open>
  Configuration values and version strings are JavaScript values that are either a string
  or \<^verbatim>\<open>undefined\<close>; \<open>None\<close> stands for \<^verbatim>\<open>undefined\<close>. The test \<^verbatim>\<open>!value\<close> of the
  source holds for \<^verbatim>\<open>undefined\<close> and for the empty string.

  A JavaScript object used as a dictionary is an association list in insertion order;
  the assignment \<^verbatim>\<open>acc[k] = v\<close> is \<open>AList.update\<close>, which replaces the value of a
  key that is present and appends a new key at the end.
\<close>

type_synonym jsval = "string option"

definition truthy :: "jsval \<Rightarrow> bool" where
  "truthy v = (case v of None \<Rightarrow> False | Some s \<Rightarrow> s \<noteq> [])"

section \<open>Local registry: the configuration that is read\<close>

text \<open>
  \<^verbatim>\<open>npmConf().config\<close> is loaded once, by the constructor of \<^verbatim>\<open>NpmConfManager\<close>.
  Its \<^verbatim>\<open>get(name, location)\<close> answers from the named source when a location is given
  and with the effective value otherwise.
\<close>

record npmConfig =
  effective :: "string \<Rightarrow> jsval"
  sources :: "string \<Rightarrow> string \<Rightarrow> jsval"

definition conf_get :: "npmConfig \<Rightarrow> string \<Rightarrow> string option \<Rightarrow> jsval" where
  "conf_get c name location =
     (case location of None \<Rightarrow> effective c name | Some l \<Rightarrow> sources c l name)"

text \<open>
  \<^verbatim>\<open>originalValuesForLocations\<close> is a \<^verbatim>\<open>Map\<close> from a location to a \<^verbatim>\<open>Map\<close> from a key
  to the recorded value. A \<^verbatim>\<open>Map\<close> iterates in insertion order, so both are association
  lists. The location is optional in the source (\<^verbatim>\<open>location: string = undefined\<close>).
\<close>

record NpmConfManager =
  originalConf :: npmConfig
  originalValuesForLocations :: "(string option \<times> (string \<times> jsval) list) list"

definition new_NpmConfManager :: "npmConfig \<Rightarrow> NpmConfManager" where
  "new_NpmConfManager c = \<lparr>originalConf = c, originalValuesForLocations = []\<rparr>"

definition get :: "NpmConfManager \<Rightarrow> string \<Rightarrow> string option \<Rightarrow> jsval" where
  "get m name location = conf_get (originalConf m) name location"

definition getForLocation :: "NpmConfManager \<Rightarrow> string \<Rightarrow> string option \<Rightarrow> jsval \<times> jsval" where
  "getForLocation m name location = (get m name None, get m name location)"

section \<open>Local registry: the registry configuration items\<close>

record NpmConfItem =
  item_name :: string
  item_key :: string

record NpmRegistryConfig = NpmConfItem +
  item_value :: jsval
  item_locationValue :: jsval

definition npmRegistry :: NpmConfItem where
  "npmRegistry = \<lparr>item_name = ''npm'', item_key = ''registry''\<rparr>"

definition createScopedRegistryConfigItem :: "string \<Rightarrow> NpmConfItem" where
  "createScopedRegistryConfigItem s = \<lparr>item_name = s, item_key = ''@'' @ s @ '':registry''\<rparr>"

definition mapNpmScopesToConfItems :: "string list \<Rightarrow> NpmConfItem list" where
  "mapNpmScopesToConfItems npmScopes = map createScopedRegistryConfigItem npmScopes"

text \<open>
  \<^verbatim>\<open>getNpmRegistriesConfig\<close>: the scopes are those of \<^verbatim>\<open>getWorkspaceNpmScopes\<close>, which
  reads the project graph and the package manifests on disk; they are a parameter here.
\<close>

definition getNpmRegistriesConfig ::
  "string list \<Rightarrow> NpmConfManager \<Rightarrow> string option \<Rightarrow> NpmRegistryConfig list" where
  "getNpmRegistriesConfig npmScopes conf location =
     map (\<lambda>i. case getForLocation conf (item_key i) location of
                 (v, lv) \<Rightarrow> \<lparr>item_name = item_name i, item_key = item_key i,
                              item_value = v, item_locationValue = lv\<rparr>)
         (mapNpmScopesToConfItems npmScopes @ [npmRegistry])"

section \<open>Local registry: the generated server configuration\<close>

record uplink =
  url :: string

record packageConf =
  access :: string
  publish :: string
  unpublish :: string
  proxy :: string

record verdaccioConfig =
  storage :: string
  uplinks :: "(string \<times> uplink) list"
  packages :: "(string \<times> packageConf) list"
  log_type :: string
  log_format :: string
  log_level :: string
  publish_allow_offline :: bool
  middlewares_audit_enabled :: bool

definition addUplink ::
  "(string \<times> uplink) list \<Rightarrow> NpmRegistryConfig \<Rightarrow> (string \<times> uplink) list" where
  "addUplink acc i =
     (case item_value i of
        None \<Rightarrow> acc
      | Some v \<Rightarrow> if v = [] then acc else AList.update (item_name i) \<lparr>url = v\<rparr> acc)"

definition packageKey :: "NpmRegistryConfig \<Rightarrow> string" where
  "packageKey i = (if item_key i = ''registry'' then ''**'' else ''@'' @ item_name i @ ''/*'')"

definition addPackage ::
  "(string \<times> packageConf) list \<Rightarrow> NpmRegistryConfig \<Rightarrow> (string \<times> packageConf) list" where
  "addPackage acc i =
     (if \<not> truthy (item_value i) then acc
      else AList.update (packageKey i)
             \<lparr>access = ''$all'', publish = ''$all'', unpublish = ''$all'', proxy = item_name i\<rparr>
             acc)"

definition createVerdaccioConfig :: "NpmRegistryConfig list \<Rightarrow> verdaccioConfig" where
  "createVerdaccioConfig npmRegistryConfig =
     \<lparr>storage = ''../tmp/local-registry/storage'',
      uplinks = foldl addUplink [] npmRegistryConfig,
      packages = foldl addPackage [] npmRegistryConfig,
      log_type = ''stdout'', log_format = ''pretty'', log_level = ''debug'',
      publish_allow_offline = True,
      middlewares_audit_enabled = True\<rparr>"

section \<open>Exceptions and statement sequencing\<close>

text \<open>
  A JavaScript exception does not undo the writes made before it. Every effectful function
  of the model therefore returns the state it reached together with the exception it
  raised, if any.
\<close>

datatype command =
    NpmConfigSet string string string
  | NpmConfigDelete string string

datatype signal = SignalName string | SignalNumber int | SignalUndefined

datatype error =
    CommandFailed command
  | UnknownSignal signal
  | VerdaccioNotInstalled
  | CopyFailed
  | FsError
  | TypeError
  | RangeError

fun forEach :: "('a \<Rightarrow> 's \<Rightarrow> error option \<times> 's) \<Rightarrow> 'a list \<Rightarrow> 's \<Rightarrow> error option \<times> 's" where
  "forEach f [] s = (None, s)"
| "forEach f (x # xs) s =
     (case f x s of
        (Some e, s') \<Rightarrow> (Some e, s')
      | (None, s') \<Rightarrow> forEach f xs s')"

section \<open>Local registry: the process environment\<close>

text \<open>
  \<^verbatim>\<open>set\<close> runs one of two command lines, both built as text without quoting:
  \<^verbatim>\<open>npm config set ${name}=${value} --location ${location}\<close> is \<open>NpmConfigSet name value
  location\<close>, and \<^verbatim>\<open>npm config delete ${name} --location ${location}\<close> is
  \<open>NpmConfigDelete name location\<close>.

  What such a line does is decided by the shell and by the package manager, not by the
  source. The environment of the registry session therefore holds, besides the package
  manager's configuration files (one partition per location name): for every command, the
  entries that running it leaves written in those files, in order (\<open>shell\<close>), and whether
  it ends with a non-zero exit code, on which \<^verbatim>\<open>execSync\<close> throws (\<open>failing\<close>). A command
  that fails may have written before it failed. The environment also holds the
  module-level variable \<^verbatim>\<open>childProcess\<close>, which signals \<^verbatim>\<open>childProcess.kill\<close> rejects as
  unknown, and the trace of what the session did to the outside, in order.
\<close>

datatype event =
    Exec command
  | Kill signal
  | ConsoleError error
  | WriteYaml verdaccioConfig

text \<open>A written entry: location, key and value; the value \<open>None\<close> removes the key.\<close>

type_synonym entryWrite = "string \<times> string \<times> jsval"

record world =
  npmrc :: "string \<Rightarrow> string \<Rightarrow> jsval"
  shell :: "command \<Rightarrow> entryWrite list"
  failing :: "command \<Rightarrow> bool"
  childProcess :: bool
  unknownSignal :: "signal \<Rightarrow> bool"
  events :: "event list"

definition assign :: "entryWrite \<Rightarrow> (string \<Rightarrow> string \<Rightarrow> jsval) \<Rightarrow> (string \<Rightarrow> string \<Rightarrow> jsval)" where
  "assign a rc = (case a of (l, k, v) \<Rightarrow> rc(l := (rc l)(k := v)))"

definition runCommand :: "world \<Rightarrow> command \<Rightarrow> (string \<Rightarrow> string \<Rightarrow> jsval)" where
  "runCommand w cmd = fold assign (shell w cmd) (npmrc w)"

definition execSync :: "command \<Rightarrow> world \<Rightarrow> error option \<times> world" where
  "execSync cmd w =
     (if failing w cmd then Some (CommandFailed cmd) else None,
      w\<lparr>npmrc := runCommand w cmd, events := events w @ [Exec cmd]\<rparr>)"

text \<open>
  What a command says, read as its author meant it: one key of one location is given a
  value, or removed. An environment carries a command out as written when that is what
  running it leaves written. The shell does not do so for a name or a value that holds a
  space or one of its special characters, since the source does not quote them.
\<close>

fun literally :: "command \<Rightarrow> entryWrite list" where
  "literally (NpmConfigSet name v l) = [(l, name, Some v)]"
| "literally (NpmConfigDelete name l) = [(l, name, None)]"

definition asWritten :: "world \<Rightarrow> command \<Rightarrow> bool" where
  "asWritten w cmd = (shell w cmd = literally cmd)"

section \<open>Local registry: the configuration snapshot manager\<close>

definition getLocationOriginalValues ::
  "string option \<Rightarrow> NpmConfManager \<Rightarrow> (string \<times> jsval) list \<times> NpmConfManager" where
  "getLocationOriginalValues location m =
     (case map_of (originalValuesForLocations m) location of
        None \<Rightarrow> ([], m\<lparr>originalValuesForLocations :=
                        AList.update location [] (originalValuesForLocations m)\<rparr>)
      | Some vals \<Rightarrow> (vals, m))"

definition storeOriginalValue :: "string \<Rightarrow> string option \<Rightarrow> NpmConfManager \<Rightarrow> NpmConfManager" where
  "storeOriginalValue name location m =
     (case getLocationOriginalValues location m of
        (locationValues, m') \<Rightarrow>
          if name \<in> fst ` set locationValues then m'
          else m'\<lparr>originalValuesForLocations :=
                 AList.update location (AList.update name (get m' name location) locationValues)
                   (originalValuesForLocations m')\<rparr>)"

text \<open>The template literal prints an undefined location as the text \<^verbatim>\<open>undefined\<close>.\<close>

definition locationText :: "string option \<Rightarrow> string" where
  "locationText location = (case location of None \<Rightarrow> ''undefined'' | Some l \<Rightarrow> l)"

definition set_conf ::
  "string \<Rightarrow> jsval \<Rightarrow> string option \<Rightarrow> NpmConfManager \<times> world \<Rightarrow> error option \<times> NpmConfManager \<times> world" where
  "set_conf name v location s =
     (case s of (m, w) \<Rightarrow>
        let m' = storeOriginalValue name location m;
            cmd = (case v of
                     None \<Rightarrow> NpmConfigDelete name (locationText location)
                   | Some x \<Rightarrow> if x = [] then NpmConfigDelete name (locationText location)
                             else NpmConfigSet name x (locationText location))
        in (case execSync cmd w of (r, w') \<Rightarrow> (r, m', w')))"

definition restore :: "string option \<Rightarrow> NpmConfManager \<times> world \<Rightarrow> error option \<times> NpmConfManager \<times> world" where
  "restore location s =
     (case s of (m, w) \<Rightarrow>
        (case getLocationOriginalValues location m of
           (vals, m') \<Rightarrow> forEach (\<lambda>(name, v). set_conf name v location) vals (m', w)))"

definition restoreAll :: "NpmConfManager \<times> world \<Rightarrow> error option \<times> NpmConfManager \<times> world" where
  "restoreAll s =
     (case s of (m, w) \<Rightarrow> forEach restore (map fst (originalValuesForLocations m)) (m, w))"

text \<open>
  \<^verbatim>\<open>processExitListener\<close>, registered for \<^verbatim>\<open>exit\<close>, \<^verbatim>\<open>SIGTERM\<close>, \<^verbatim>\<open>SIGINT\<close> and
  \<^verbatim>\<open>SIGHUP\<close>. The result is the exception with which the listener ends, if any.
\<close>

definition kill :: "signal \<Rightarrow> world \<Rightarrow> error option \<times> world" where
  "kill sig w =
     (if unknownSignal w sig then (Some (UnknownSignal sig), w)
      else (None, w\<lparr>events := events w @ [Kill sig]\<rparr>))"

definition processExitListener ::
  "signal \<Rightarrow> NpmConfManager \<times> world \<Rightarrow> error option \<times> NpmConfManager \<times> world" where
  "processExitListener sig s =
     (case s of (m, w) \<Rightarrow>
        (case (if childProcess w then kill sig w else (None, w)) of
           (Some e, w1) \<Rightarrow> (Some e, m, w1)
         | (None, w1) \<Rightarrow>
             (case restoreAll (m, w1) of
                (Some e, m2, w2) \<Rightarrow> (None, m2, w2\<lparr>events := events w2 @ [ConsoleError e]\<rparr>)
              | (None, m2, w2) \<Rightarrow> (None, m2, w2))))"

section \<open>Local registry: the session orchestrator\<close>

record StartRepoExecutorSchema =
  opt_location :: string
  opt_storage :: "string option"
  opt_port :: nat
  opt_config :: "string option"
  opt_clear :: "bool option"

text \<open>The template literal prints the port number in decimal.\<close>

fun showNat :: "nat \<Rightarrow> string" where
  "showNat n =
     (if n < 10 then [''0123456789'' ! n]
      else showNat (n div 10) @ [''0123456789'' ! (n mod 10)])"

declare showNat.simps [simp del]

record localRegistrySettings =
  registry :: string
  authTokenKey :: string
  authTokenValue :: string

definition getLocalRegistrySettings :: "nat \<Rightarrow> localRegistrySettings" where
  "getLocalRegistrySettings port =
     (let hostAndPort = ''localhost:'' @ showNat port @ ''/''
      in \<lparr>registry = ''http://'' @ hostAndPort,
          authTokenKey = ''//'' @ hostAndPort @ '':_authToken'',
          authTokenValue = ''secretVerdaccioToken''\<rparr>)"

definition configureNpm ::
  "NpmRegistryConfig list \<Rightarrow> localRegistrySettings \<Rightarrow> StartRepoExecutorSchema \<Rightarrow>
   NpmConfManager \<times> world \<Rightarrow> error option \<times> NpmConfManager \<times> world" where
  "configureNpm npmRegistryConfig registryConfig options s =
     (case forEach (\<lambda>i. set_conf (item_key i) (Some (registry registryConfig))
                        (Some (opt_location options))) npmRegistryConfig s of
        (Some e, s') \<Rightarrow> (Some e, s')
      | (None, s') \<Rightarrow>
          set_conf (authTokenKey registryConfig) (Some (authTokenValue registryConfig))
            (Some (opt_location options)) s')"

text \<open>
  \<^verbatim>\<open>startVerdaccio\<close> returns a promise that the handlers of the child's \<^verbatim>\<open>error\<close>,
  \<^verbatim>\<open>disconnect\<close> and \<^verbatim>\<open>exit\<close> events settle. A promise is settled once: a later
  \<^verbatim>\<open>resolve\<close> or \<^verbatim>\<open>reject\<close> does nothing. The exit code is \<^verbatim>\<open>null\<close> when a signal
  ended the child. What the child does is an input: either \<^verbatim>\<open>fork\<close> throws inside the
  promise's executor, or the child is started and emits the given events, in order, up to
  the moment of observation.
\<close>

datatype childEvent = ChildError string | ChildDisconnect | ChildExit "int option"

datatype launch = ForkThrew string | Forked "childEvent list"

datatype rejection = RejectedError string | RejectedUndefined | RejectedCode "int option"

datatype promise = Pending | Resolved int | Rejected rejection

fun settle :: "promise \<Rightarrow> childEvent \<Rightarrow> promise" where
  "settle Pending (ChildError err) = Rejected (RejectedError err)"
| "settle Pending ChildDisconnect = Rejected RejectedUndefined"
| "settle Pending (ChildExit code) =
     (if code = Some 0 then Resolved 0 else Rejected (RejectedCode code))"
| "settle p e = p"

definition startVerdaccio :: "launch \<Rightarrow> promise" where
  "startVerdaccio l =
     (case l of
        ForkThrew err \<Rightarrow> Rejected (RejectedError err)
      | Forked evs \<Rightarrow> foldl settle Pending evs)"

record executorResult =
  success :: bool
  port :: nat

text \<open>
  The outcome of the asynchronous \<^verbatim>\<open>runExecutor\<close> at the moment of observation: it has
  thrown, it is still waiting for the launch promise, or it has returned.
\<close>

datatype outcome = Threw error | Waiting | Returned executorResult

text \<open>
  The inputs of a session that the orchestrator reads from its surroundings: whether
  \<^verbatim>\<open>require.resolve('verdaccio')\<close> succeeds, the scopes of the workspace, the configuration
  that \<^verbatim>\<open>npmConf()\<close> loads, whether the generated configuration file can be written, and
  what the child process does.
\<close>

record session =
  verdaccioInstalled :: bool
  workspaceNpmScopes :: "string list"
  loadedConf :: npmConfig
  configFileWritable :: bool
  child :: launch

text \<open>
  \<^verbatim>\<open>runExecutor\<close> up to the registration of the exit listeners. Clearing the storage folder
  acts on the file system only and is not part of this state; of the generated
  configuration file, the trace keeps the document that is written.
\<close>

definition prepare ::
  "StartRepoExecutorSchema \<Rightarrow> session \<Rightarrow> world \<Rightarrow> error option \<times> NpmConfManager \<times> world" where
  "prepare options env w =
     (if \<not> verdaccioInstalled env
      then (Some VerdaccioNotInstalled, new_NpmConfManager (loadedConf env), w)
      else
        let conf = new_NpmConfManager (loadedConf env);
            registryConfig = getLocalRegistrySettings (opt_port options);
            npmRegistryConfig = getNpmRegistriesConfig (workspaceNpmScopes env) conf
                                  (Some (opt_location options));
            verdaccionConfig = createVerdaccioConfig npmRegistryConfig
        in if \<not> configFileWritable env then (Some FsError, conf, w)
           else configureNpm npmRegistryConfig registryConfig options
                  (conf, w\<lparr>events := events w @ [WriteYaml verdaccionConfig]\<rparr>))"

definition runExecutor ::
  "StartRepoExecutorSchema \<Rightarrow> session \<Rightarrow> world \<Rightarrow> outcome \<times> NpmConfManager \<times> world" where
  "runExecutor options env w =
     (case prepare options env w of
        (Some e, m, w') \<Rightarrow> (Threw e, m, w')
      | (None, m, w') \<Rightarrow>
          ((case startVerdaccio (child env) of
              Pending \<Rightarrow> Waiting
            | Rejected e \<Rightarrow> Returned \<lparr>success = False, port = opt_port options\<rparr>
            | Resolved c \<Rightarrow> Returned \<lparr>success = True, port = opt_port options\<rparr>),
           m,
           w'\<lparr>childProcess :=
                (case child env of ForkThrew err \<Rightarrow> childProcess w' | Forked evs \<Rightarrow> True)\<rparr>))"

text \<open>The child has exited once an \<^verbatim>\<open>exit\<close> event is among its events.\<close>

fun isExit :: "childEvent \<Rightarrow> bool" where
  "isExit (ChildExit code) = True"
| "isExit e = False"

definition childRunning :: "launch \<Rightarrow> bool" where
  "childRunning l = (case l of ForkThrew err \<Rightarrow> False | Forked evs \<Rightarrow> \<not> list_ex isExit evs)"

section \<open>Bundling: the file system\<close>

text \<open>
  A path is the list of its segments below the root. The file system maps a path to what
  is there, a regular file with its bytes or a directory; the root is a directory.
  Symbolic links and special files are outside this model. Every operation follows the
  Node function it stands for, with the exception it throws.
\<close>

type_synonym path = "string list"

datatype entry = File string | Dir

type_synonym filesystem = "(path \<times> entry) list"

definition stat :: "filesystem \<Rightarrow> path \<Rightarrow> entry option" where
  "stat fs p = (if p = [] then Some Dir else map_of fs p)"

text \<open>\<^verbatim>\<open>directoryExists\<close> of the host library: \<^verbatim>\<open>statSync(path).isDirectory()\<close>, false on any error.\<close>

definition directoryExists :: "filesystem \<Rightarrow> path \<Rightarrow> bool" where
  "directoryExists fs p = (stat fs p = Some Dir)"

text \<open>
  \<^verbatim>\<open>createDirectory\<close> of the host library: \<^verbatim>\<open>mkdirSync(path, {recursive: true})\<close>. It
  creates every missing directory on the way and throws when a regular file is in the way.
\<close>

definition mkdir :: "path \<Rightarrow> filesystem \<Rightarrow> error option \<times> filesystem" where
  "mkdir p fs =
     (case stat fs p of
        None \<Rightarrow> (None, AList.update p Dir fs)
      | Some Dir \<Rightarrow> (None, fs)
      | Some (File b) \<Rightarrow> (Some FsError, fs))"

definition createDirectory :: "path \<Rightarrow> filesystem \<Rightarrow> error option \<times> filesystem" where
  "createDirectory p fs = forEach mkdir (tl (prefixes p)) fs"

definition readdirSync :: "filesystem \<Rightarrow> path \<Rightarrow> error + string list" where
  "readdirSync fs p =
     (case stat fs p of
        Some Dir \<Rightarrow> Inr (remdups (map (\<lambda>(q, e). last q) (filter (\<lambda>(q, e). q \<noteq> [] \<and> butlast q = p) fs)))
      | Some (File b) \<Rightarrow> Inl FsError
      | None \<Rightarrow> Inl FsError)"

definition copyFileSync :: "path \<Rightarrow> path \<Rightarrow> filesystem \<Rightarrow> error option \<times> filesystem" where
  "copyFileSync src dest fs =
     (case stat fs src of
        Some (File b) \<Rightarrow>
          if dest \<noteq> [] \<and> stat fs (butlast dest) = Some Dir \<and> stat fs dest \<noteq> Some Dir
          then (None, AList.update dest (File b) fs)
          else (Some FsError, fs)
      | Some Dir \<Rightarrow> (Some FsError, fs)
      | None \<Rightarrow> (Some FsError, fs))"

section \<open>Bundling: the folder copier\<close>

text \<open>
  \<^verbatim>\<open>copyFolderSync\<close>. The first argument bounds the depth of the recursion: the call stack
  of the source is finite, and a recursion that exceeds it ends with a \<^verbatim>\<open>RangeError\<close>.
  \<^verbatim>\<open>join(from, element)\<close> with a directory entry's name appends the name to the path.
\<close>

definition ensureDirectory :: "path \<Rightarrow> filesystem \<Rightarrow> error option \<times> filesystem" where
  "ensureDirectory to fs = (if \<not> directoryExists fs to then createDirectory to fs else (None, fs))"

fun copyFolderSync :: "nat \<Rightarrow> path \<Rightarrow> path \<Rightarrow> filesystem \<Rightarrow> error option \<times> filesystem" where
  "copyFolderSync 0 from to fs = (Some RangeError, fs)"
| "copyFolderSync (Suc n) from to fs =
     (case ensureDirectory to fs of
        (Some e, fs1) \<Rightarrow> (Some e, fs1)
      | (None, fs1) \<Rightarrow>
          (case readdirSync fs1 from of
             Inl e \<Rightarrow> (Some e, fs1)
           | Inr names \<Rightarrow>
               forEach
                 (\<lambda>element fs2.
                    case stat fs2 (from @ [element]) of
                      None \<Rightarrow> (Some FsError, fs2)
                    | Some (File b) \<Rightarrow>
                        (case copyFileSync (from @ [element]) (to @ [element]) fs2 of
                           (Some e, fs3) \<Rightarrow> (Some CopyFailed, fs3)
                         | (None, fs3) \<Rightarrow> (None, fs3))
                    | Some Dir \<Rightarrow> copyFolderSync n (from @ [element]) (to @ [element]) fs2)
                 names fs1))"

text \<open>
  What is found at the relative path \<open>p\<close> below the directory \<open>d\<close>, walking down through
  directories; and the bytes of the regular file found there.
\<close>

fun reach :: "filesystem \<Rightarrow> path \<Rightarrow> path \<Rightarrow> entry option" where
  "reach fs d [] = stat fs d"
| "reach fs d (e # p) = (case stat fs d of Some Dir \<Rightarrow> reach fs (d @ [e]) p | Some (File b) \<Rightarrow> None | None \<Rightarrow> None)"

definition fileUnder :: "filesystem \<Rightarrow> path \<Rightarrow> path \<Rightarrow> string option" where
  "fileUnder fs d p = (case reach fs d p of Some (File b) \<Rightarrow> Some b | Some Dir \<Rightarrow> None | None \<Rightarrow> None)"

text \<open>The body of the loop of \<^verbatim>\<open>copyFolderSync\<close>, for one directory entry.\<close>

definition copyElement ::
  "nat \<Rightarrow> path \<Rightarrow> path \<Rightarrow> string \<Rightarrow> filesystem \<Rightarrow> error option \<times> filesystem" where
  "copyElement n from to element fs2 =
     (case stat fs2 (from @ [element]) of
        None \<Rightarrow> (Some FsError, fs2)
      | Some (File b) \<Rightarrow>
          (case copyFileSync (from @ [element]) (to @ [element]) fs2 of
             (Some e, fs3) \<Rightarrow> (Some CopyFailed, fs3)
           | (None, fs3) \<Rightarrow> (None, fs3))
      | Some Dir \<Rightarrow> copyFolderSync n (from @ [element]) (to @ [element]) fs2)"

text \<open>
  Two relations between the file system before and after a copy into \<open>t\<close>. Outside the
  tree below \<open>t\<close> nothing changes but that missing directories on the way to \<open>t\<close> are
  created. Below \<open>t\<close>, what is found at a relative path is what the source tree \<open>f\<close> has
  there, and what was there before where the source tree has nothing.
\<close>

definition outsideKept :: "path \<Rightarrow> filesystem \<Rightarrow> filesystem \<Rightarrow> bool" where
  "outsideKept t fs fs' =
     (\<forall>q. \<not> prefix t q \<longrightarrow>
        stat fs' q = stat fs q \<or> (prefix q t \<and> stat fs q = None \<and> stat fs' q = Some Dir))"

definition copiedInto :: "path \<Rightarrow> path \<Rightarrow> filesystem \<Rightarrow> filesystem \<Rightarrow> bool" where
  "copiedInto f t fs fs' =
     (\<forall>p. stat fs' (t @ p) = (case reach fs f p of Some x \<Rightarrow> Some x | None \<Rightarrow> stat fs (t @ p)))"

section \<open>Bundling: manifests and dependency records\<close>

text \<open>
  A package manifest, as far as the bundler reads it. A field that the file does not have
  is \<open>None\<close>. The value of a dependency is a version string, or \<^verbatim>\<open>undefined\<close> once the
  merger has stored an unresolved version.
\<close>

record PackageJson =
  version :: jsval
  dependencies :: "(string \<times> jsval) list option"
  devDependencies :: "(string \<times> jsval) list option"
  peerDependencies :: "(string \<times> jsval) list option"
  optionalDependencies :: "(string \<times> jsval) list option"
  bundleDependencies :: "string list option"

text \<open>The expression \<^verbatim>\<open>x || {}\<close>, and the same for a list.\<close>

definition orEmpty :: "'a list option \<Rightarrow> 'a list" where
  "orEmpty x = (case x of None \<Rightarrow> [] | Some xs \<Rightarrow> xs)"

record ProjectGraphNode =
  node_type :: string
  node_name :: string
  node_packageName :: string

record DependentBuildableProjectNode =
  dep_name :: string
  dep_outputs :: "path list"
  dep_node :: ProjectGraphNode

record BundableLibDependency =
  lib_projectName :: string
  lib_packageName :: string
  lib_validPackageName :: bool
  lib_isScoped :: bool
  lib_distPath :: "path option"
  lib_npmDeps :: "string list"

record NpmPackageDependency =
  npm_packageName :: string
  npm_version :: jsval

text \<open>
  The functions of the host libraries that the bundler calls and whose code is not part
  of this repository: the validation of a package name, reading a manifest from a file,
  and writing the text of a JSON document to a file.
\<close>

record host =
  validForNewPackages :: "string \<Rightarrow> bool"
  getPackageJson :: "filesystem \<Rightarrow> path \<Rightarrow> error + PackageJson"
  writeFileSync :: "path \<Rightarrow> PackageJson \<Rightarrow> filesystem \<Rightarrow> error option \<times> filesystem"

text \<open>
  \<^verbatim>\<open>writeJsonFile\<close> writes the text that \<^verbatim>\<open>JSON.stringify\<close> makes of the object. That text
  has no property whose value is \<^verbatim>\<open>undefined\<close>: \<open>serializeJson\<close> is the manifest that the
  written file holds.
\<close>

definition definedEntries :: "(string \<times> jsval) list \<Rightarrow> (string \<times> jsval) list" where
  "definedEntries es = filter (\<lambda>e. snd e \<noteq> None) es"

definition serializeJson :: "PackageJson \<Rightarrow> PackageJson" where
  "serializeJson pj =
     pj\<lparr>dependencies := map_option definedEntries (dependencies pj),
        devDependencies := map_option definedEntries (devDependencies pj),
        peerDependencies := map_option definedEntries (peerDependencies pj),
        optionalDependencies := map_option definedEntries (optionalDependencies pj)\<rparr>"

definition writeJsonFile ::
  "host \<Rightarrow> path \<Rightarrow> PackageJson \<Rightarrow> filesystem \<Rightarrow> error option \<times> filesystem" where
  "writeJsonFile h p data fs = writeFileSync h p (serializeJson data) fs"

text \<open>
  \<^verbatim>\<open>path.join\<close> of a path and a name that may hold several segments, as a scoped package
  name does.
\<close>

primrec splitSlash :: "string \<Rightarrow> string list" where
  "splitSlash [] = [[]]"
| "splitSlash (c # cs) =
     (if c = CHR ''/'' then [] # splitSlash cs
      else (case splitSlash cs of [] \<Rightarrow> [[c]] | s # ss \<Rightarrow> (c # s) # ss))"

definition joinSegment :: "path \<Rightarrow> string \<Rightarrow> path" where
  "joinSegment acc seg =
     (if seg = [] \<or> seg = ''.'' then acc
      else if seg = ''..'' then butlast acc
      else acc @ [seg])"

definition join :: "path \<Rightarrow> string \<Rightarrow> path" where
  "join p s = foldl joinSegment p (splitSlash s)"

section \<open>Bundling: the dependency classifier\<close>

definition isLibNode :: "DependentBuildableProjectNode \<Rightarrow> bool" where
  "isLibNode dependency = (node_type (dep_node dependency) = ''lib'')"

definition isNpmPackage :: "DependentBuildableProjectNode \<Rightarrow> bool" where
  "isNpmPackage dependency = (node_type (dep_node dependency) = ''npm'')"

text \<open>
  \<^verbatim>\<open>isScoped\<close>: the whole name matches \<^verbatim>\<open>@[a-z\d][\w-.]+/[a-z\d][\w-.]*\<close>, ignoring case.
\<close>

definition isAlnum :: "char \<Rightarrow> bool" where
  "isAlnum c =
     (let k = (of_char c :: nat)
      in (48 \<le> k \<and> k \<le> 57) \<or> (65 \<le> k \<and> k \<le> 90) \<or> (97 \<le> k \<and> k \<le> 122))"

definition isNameChar :: "char \<Rightarrow> bool" where
  "isNameChar c = (isAlnum c \<or> c = CHR ''_'' \<or> c = CHR ''-'' \<or> c = CHR ''.'')"

definition isScoped :: "string \<Rightarrow> bool" where
  "isScoped name =
     (case name of
        [] \<Rightarrow> False
      | c # rest \<Rightarrow>
          c = CHR ''@'' \<and>
          (case takeWhile (\<lambda>x. x \<noteq> CHR ''/'') rest of
             [] \<Rightarrow> False
           | s # ss \<Rightarrow> isAlnum s \<and> ss \<noteq> [] \<and> list_all isNameChar ss) \<and>
          (case dropWhile (\<lambda>x. x \<noteq> CHR ''/'') rest of
             [] \<Rightarrow> False
           | slash # after \<Rightarrow>
               (case after of
                  [] \<Rightarrow> False
                | d # ds \<Rightarrow> isAlnum d \<and> list_all isNameChar ds)))"

text \<open>\<^verbatim>\<open>[...new Set(arr)]\<close> keeps the first occurrence of each element.\<close>

definition removeDuplicates :: "string list \<Rightarrow> string list" where
  "removeDuplicates arr = rev (remdups (rev arr))"

text \<open>\<^verbatim>\<open>target.split('npm:')[1] || ''\<close>.\<close>

fun splitOn :: "string \<Rightarrow> string \<Rightarrow> string \<Rightarrow> string list" where
  "splitOn sep acc [] = [rev acc]"
| "splitOn sep acc (c # cs) =
     (if sep \<noteq> [] \<and> prefix sep (c # cs)
      then rev acc # splitOn sep [] (drop (length sep - 1) cs)
      else splitOn sep (c # acc) cs)"

definition helperPackageName :: "string \<Rightarrow> string" where
  "helperPackageName target =
     (case splitOn ''npm:'' [] target of
        [] \<Rightarrow> []
      | a # r \<Rightarrow> (case r of [] \<Rightarrow> [] | b # r' \<Rightarrow> b))"

text \<open>
  What \<^verbatim>\<open>getProjectDependencies\<close> takes from the host build tool: the two dependency lists
  of \<^verbatim>\<open>calculateProjectDependencies\<close>, the targets of the helper dependencies of the
  project, and the versions declared by the root manifest.
\<close>

record dependencyContext =
  ctx_dependencies :: "DependentBuildableProjectNode list"
  ctx_topLevelDependencies :: "DependentBuildableProjectNode list"
  ctx_helperTargets :: "string list"
  ctx_rootNpmDeps :: "string \<Rightarrow> jsval"
  ctx_outputs :: "path list"

definition toLibDependency :: "host \<Rightarrow> DependentBuildableProjectNode \<Rightarrow> BundableLibDependency" where
  "toLibDependency h dep =
     \<lparr>lib_projectName = node_name (dep_node dep),
      lib_packageName = dep_name dep,
      lib_validPackageName = validForNewPackages h (dep_name dep),
      lib_isScoped = isScoped (node_name (dep_node dep)),
      lib_distPath = (case dep_outputs dep of [] \<Rightarrow> None | out # rest \<Rightarrow> Some out),
      lib_npmDeps = []\<rparr>"

definition getProjectDependencies ::
  "host \<Rightarrow> dependencyContext \<Rightarrow> BundableLibDependency list \<times> NpmPackageDependency list" where
  "getProjectDependencies h ctx =
     (let deps = ctx_dependencies ctx @ ctx_topLevelDependencies ctx;
          libDeps = filter lib_validPackageName (map (toLibDependency h) (filter isLibNode deps));
          npmDeps = map (\<lambda>dep. node_packageName (dep_node dep)) (filter isNpmPackage deps);
          projectHelperDeps = map helperPackageName (ctx_helperTargets ctx);
          helperNmpDeps = concat (map lib_npmDeps libDeps);
          combinedNpmDeps = removeDuplicates (npmDeps @ projectHelperDeps @ helperNmpDeps);
          npmDepsWithVersions =
            map (\<lambda>d. \<lparr>npm_packageName = d, npm_version = ctx_rootNpmDeps ctx d\<rparr>) combinedNpmDeps
      in (libDeps, npmDepsWithVersions))"

section \<open>Bundling: the manifest merger\<close>

record ProjectInfoPlusPlus =
  distPath :: path
  distPackageJson :: PackageJson
  distNodeModulesPath :: path
  distPackageJsonPath :: path
  publishPath :: path
  publishPackageJson :: PackageJson
  publishNodeModulesPath :: path
  publishPackageJsonPath :: path
  libDeps :: "BundableLibDependency list"
  npmDeps :: "NpmPackageDependency list"

text \<open>The object literal \<^verbatim>\<open>{dependencies: {}, ..., ...publishPackageJson}\<close>.\<close>

definition withDefaults :: "PackageJson \<Rightarrow> PackageJson" where
  "withDefaults pj =
     \<lparr>version = version pj,
      dependencies = Some (orEmpty (dependencies pj)),
      devDependencies = Some (orEmpty (devDependencies pj)),
      peerDependencies = Some (orEmpty (peerDependencies pj)),
      optionalDependencies = Some (orEmpty (optionalDependencies pj)),
      bundleDependencies = Some (orEmpty (bundleDependencies pj))\<rparr>"

text \<open>\<^verbatim>\<open>Object.keys\<close> of an absent field throws a \<^verbatim>\<open>TypeError\<close>, as does a call of \<^verbatim>\<open>push\<close> on one.\<close>

definition hasDependency :: "PackageJson \<Rightarrow> string \<Rightarrow> error + bool" where
  "hasDependency outputJson dep =
     (case dependencies outputJson of
        None \<Rightarrow> Inl TypeError
      | Some deps \<Rightarrow>
          Inr (dep \<in> set (map fst deps
                           @ map fst (orEmpty (peerDependencies outputJson))
                           @ map fst (orEmpty (optionalDependencies outputJson))
                           @ map fst (orEmpty (devDependencies outputJson)))))"

datatype destination = ToDependencies | ToBundledDependencies

definition assignDependency :: "NpmPackageDependency \<Rightarrow> PackageJson \<Rightarrow> error + PackageJson" where
  "assignDependency npmDep packageJson =
     (case dependencies packageJson of
        None \<Rightarrow> Inl TypeError
      | Some deps \<Rightarrow>
          Inr (packageJson\<lparr>dependencies :=
                 Some (AList.update (npm_packageName npmDep) (npm_version npmDep) deps)\<rparr>))"

definition addDependency ::
  "NpmPackageDependency \<Rightarrow> destination \<Rightarrow> PackageJson \<Rightarrow> error + PackageJson" where
  "addDependency npmDep dest packageJson =
     (case dest of
        ToBundledDependencies \<Rightarrow>
          (case bundleDependencies packageJson of
             None \<Rightarrow> Inl TypeError
           | Some bundled \<Rightarrow>
               assignDependency npmDep
                 (packageJson\<lparr>bundleDependencies := Some (bundled @ [npm_packageName npmDep])\<rparr>))
      | ToDependencies \<Rightarrow> assignDependency npmDep packageJson)"

text \<open>
  \<^verbatim>\<open>copyFolderSync\<close> called with the first output of a library, which is \<^verbatim>\<open>undefined\<close> for a
  library without outputs: \<^verbatim>\<open>readdirSync(undefined)\<close> throws after the destination has been
  created.
\<close>

definition copyFolderSyncFrom ::
  "nat \<Rightarrow> path option \<Rightarrow> path \<Rightarrow> filesystem \<Rightarrow> error option \<times> filesystem" where
  "copyFolderSyncFrom n src to fs =
     (case src of
        Some from \<Rightarrow> copyFolderSync n from to fs
      | None \<Rightarrow>
          (case n of
             0 \<Rightarrow> (Some RangeError, fs)
           | Suc k \<Rightarrow>
               (case ensureDirectory to fs of
                  (Some e, fs1) \<Rightarrow> (Some e, fs1)
                | (None, fs1) \<Rightarrow> (Some TypeError, fs1))))"

definition addLibDependency ::
  "host \<Rightarrow> nat \<Rightarrow> ProjectInfoPlusPlus \<Rightarrow> BundableLibDependency \<Rightarrow>
   PackageJson \<times> filesystem \<Rightarrow> error option \<times> PackageJson \<times> filesystem" where
  "addLibDependency h n projectInfo dependency s =
     (case s of (packageJson, fs) \<Rightarrow>
        (case hasDependency packageJson (lib_packageName dependency) of
           Inl e \<Rightarrow> (Some e, packageJson, fs)
         | Inr True \<Rightarrow> (None, packageJson, fs)
         | Inr False \<Rightarrow>
             (case copyFolderSyncFrom n (lib_distPath dependency)
                     (join (publishNodeModulesPath projectInfo) (lib_packageName dependency)) fs of
                (Some e, fs1) \<Rightarrow> (Some e, packageJson, fs1)
              | (None, fs1) \<Rightarrow>
                  (case getPackageJson h fs1
                          (join (join (publishNodeModulesPath projectInfo) (lib_packageName dependency))
                             ''package.json'') of
                     Inl e \<Rightarrow> (Some e, packageJson, fs1)
                   | Inr copied \<Rightarrow>
                       (case addDependency
                               \<lparr>npm_packageName = lib_packageName dependency,
                                npm_version = version copied\<rparr>
                               ToBundledDependencies packageJson of
                          Inl e \<Rightarrow> (Some e, packageJson, fs1)
                        | Inr packageJson' \<Rightarrow> (None, packageJson', fs1))))))"

definition addNpmDependency ::
  "NpmPackageDependency \<Rightarrow> PackageJson \<times> filesystem \<Rightarrow> error option \<times> PackageJson \<times> filesystem" where
  "addNpmDependency dependency s =
     (case s of (packageJson, fs) \<Rightarrow>
        (case hasDependency packageJson (npm_packageName dependency) of
           Inl e \<Rightarrow> (Some e, packageJson, fs)
         | Inr True \<Rightarrow> (None, packageJson, fs)
         | Inr False \<Rightarrow>
             (case addDependency dependency ToDependencies packageJson of
                Inl e \<Rightarrow> (Some e, packageJson, fs)
              | Inr packageJson' \<Rightarrow> (None, packageJson', fs))))"

text \<open>
  \<^verbatim>\<open>updateDependencies2\<close>. The result holds the manifest object as it is when the function
  ends, which on success is the object handed to \<^verbatim>\<open>writeJsonFile\<close>; the manifest
  written is \<open>serializeJson\<close> of it.
\<close>

definition updateDependencies2 ::
  "host \<Rightarrow> nat \<Rightarrow> ProjectInfoPlusPlus \<Rightarrow> filesystem \<Rightarrow> error option \<times> PackageJson \<times> filesystem" where
  "updateDependencies2 h n projectInfo fs =
     (case forEach (addLibDependency h n projectInfo) (libDeps projectInfo)
             (withDefaults (publishPackageJson projectInfo), fs) of
        (Some e, s) \<Rightarrow> (Some e, s)
      | (None, s) \<Rightarrow>
          (case forEach addNpmDependency (npmDeps projectInfo) s of
             (Some e, s') \<Rightarrow> (Some e, s')
           | (None, packageJson, fs') \<Rightarrow>
               (case writeJsonFile h (publishPackageJsonPath projectInfo) packageJson fs' of
                  (r, fs'') \<Rightarrow> (r, packageJson, fs''))))"

section \<open>Bundling: the orchestrator\<close>

definition getProjectInfoPlusPlus ::
  "host \<Rightarrow> nat \<Rightarrow> dependencyContext \<Rightarrow> path \<Rightarrow> filesystem \<Rightarrow>
   (error + ProjectInfoPlusPlus) \<times> filesystem" where
  "getProjectInfoPlusPlus h n ctx outputPath fs =
     (case getProjectDependencies h ctx of (libs, npms) \<Rightarrow>
        (case ctx_outputs ctx of
           [] \<Rightarrow> (Inl TypeError, fs)
         | dist # rest \<Rightarrow>
             (case getPackageJson h fs (join dist ''package.json'') of
                Inl e \<Rightarrow> (Inl e, fs)
              | Inr distJson \<Rightarrow>
                  (case copyFolderSync n dist outputPath fs of
                     (Some e, fs1) \<Rightarrow> (Inl e, fs1)
                   | (None, fs1) \<Rightarrow>
                       (case getPackageJson h fs1 (join outputPath ''package.json'') of
                          Inl e \<Rightarrow> (Inl e, fs1)
                        | Inr publishJson \<Rightarrow>
                            (Inr \<lparr>distPath = dist, distPackageJson = distJson,
                                  distNodeModulesPath = join dist ''node_modules'',
                                  distPackageJsonPath = join dist ''package.json'',
                                  publishPath = outputPath, publishPackageJson = publishJson,
                                  publishNodeModulesPath = join outputPath ''node_modules'',
                                  publishPackageJsonPath = join outputPath ''package.json'',
                                  libDeps = libs, npmDeps = npms\<rparr>, fs1))))))"

datatype bundleOutcome = BundleThrew error | BundleReturned bool

definition bundleDeps_runExecutor ::
  "host \<Rightarrow> nat \<Rightarrow> dependencyContext \<Rightarrow> path \<Rightarrow> filesystem \<Rightarrow> bundleOutcome \<times> filesystem" where
  "bundleDeps_runExecutor h n ctx outputPath fs =
     (case getProjectInfoPlusPlus h n ctx outputPath fs of
        (Inl e, fs1) \<Rightarrow> (BundleThrew e, fs1)
      | (Inr projectInfoPlusPlus, fs1) \<Rightarrow>
          (case updateDependencies2 h n projectInfoPlusPlus fs1 of
             (Some e, packageJson, fs2) \<Rightarrow> (BundleReturned False, fs2)
           | (None, packageJson, fs2) \<Rightarrow> (BundleReturned True, fs2)))"

text \<open>
  Reading the merger's result: a name is declared by a manifest when it is a key of one
  of its four dependency maps; and \<open>v\<close> is the version read back for the library \<open>name\<close> when
  the merger, having gone through the libraries before it, copied that library into the
  vendored-modules folder and read \<open>v\<close> from the manifest of the copy.
\<close>

definition declared :: "PackageJson \<Rightarrow> string \<Rightarrow> bool" where
  "declared pj name =
     (name \<in> fst ` set (orEmpty (dependencies pj))
      \<or> name \<in> fst ` set (orEmpty (peerDependencies pj))
      \<or> name \<in> fst ` set (orEmpty (optionalDependencies pj))
      \<or> name \<in> fst ` set (orEmpty (devDependencies pj)))"

definition readBack ::
  "host \<Rightarrow> nat \<Rightarrow> ProjectInfoPlusPlus \<Rightarrow> PackageJson \<times> filesystem \<Rightarrow>
   BundableLibDependency list \<Rightarrow> string \<Rightarrow> jsval \<Rightarrow> bool" where
  "readBack h n projectInfo s libs name v =
     (\<exists>ls1 lib ls2 pj0 fs0 fs1 copied.
        libs = ls1 @ lib # ls2 \<and> lib_packageName lib = name
        \<and> forEach (addLibDependency h n projectInfo) ls1 s = (None, pj0, fs0)
        \<and> \<not> declared pj0 name
        \<and> copyFolderSyncFrom n (lib_distPath lib)
              (join (publishNodeModulesPath projectInfo) name) fs0 = (None, fs1)
        \<and> getPackageJson h fs1
              (join (join (publishNodeModulesPath projectInfo) name) ''package.json'') = Inr copied
        \<and> v = version copied)"

text \<open>A declared name has the same entries in the second manifest as in the first.\<close>

definition keeps :: "string \<Rightarrow> PackageJson \<Rightarrow> PackageJson \<Rightarrow> bool" where
  "keeps k pj pj' =
     (declared pj' k
      \<and> map_of (orEmpty (dependencies pj')) k = map_of (orEmpty (dependencies pj)) k
      \<and> orEmpty (devDependencies pj') = orEmpty (devDependencies pj)
      \<and> orEmpty (peerDependencies pj') = orEmpty (peerDependencies pj)
      \<and> orEmpty (optionalDependencies pj') = orEmpty (optionalDependencies pj)
      \<and> count_list (orEmpty (bundleDependencies pj')) k = count_list (orEmpty (bundleDependencies pj)) k)"

section \<open>Reading the snapshot manager's state\<close>

text \<open>
  The value recorded for a key at a location, if the pair has been captured; the recorded
  entries of a location; the command that \<^verbatim>\<open>set(name, value, location)\<close> runs; the
  value a key has in a partition after that command, when it is carried out as written;
  and the commands of a restoration of the given locations.
\<close>

definition captured :: "NpmConfManager \<Rightarrow> string option \<Rightarrow> string \<Rightarrow> jsval option" where
  "captured m location name =
     (case map_of (originalValuesForLocations m) location of
        None \<Rightarrow> None
      | Some vals \<Rightarrow> map_of vals name)"

definition entries :: "NpmConfManager \<Rightarrow> string option \<Rightarrow> (string \<times> jsval) list" where
  "entries m location =
     (case map_of (originalValuesForLocations m) location of None \<Rightarrow> [] | Some vals \<Rightarrow> vals)"

definition configCommand :: "string \<Rightarrow> jsval \<Rightarrow> string option \<Rightarrow> command" where
  "configCommand name v location =
     (if truthy v then NpmConfigSet name (the v) (locationText location)
      else NpmConfigDelete name (locationText location))"

definition written :: "jsval \<Rightarrow> jsval" where
  "written v = (if truthy v then v else None)"

definition restoreCommands :: "NpmConfManager \<Rightarrow> string option list \<Rightarrow> command list" where
  "restoreCommands m ls = concat (map (\<lambda>l. map (\<lambda>(n, v). configCommand n v l) (entries m l)) ls)"

text \<open>
  A sequence of \<^verbatim>\<open>set\<close> calls made one after the other by a caller that goes on after a
  call that throws.
\<close>

fun setCalls ::
  "(string \<times> jsval \<times> string option) list \<Rightarrow> NpmConfManager \<times> world \<Rightarrow> NpmConfManager \<times> world" where
  "setCalls [] s = s"
| "setCalls ((name, v, location) # calls) s = setCalls calls (snd (set_conf name v location s))"

section \<open>Example inputs\<close>

definition exampleConf :: npmConfig where
  "exampleConf =
     \<lparr>effective = (\<lambda>k. if k = ''registry'' then Some ''https://registry.npmjs.org/''
                         else if k = ''@acme:registry'' then Some ''https://npm.acme.test/''
                         else None),
      sources = (\<lambda>l k. if l = ''user'' \<and> k = ''@acme:registry'' then Some ''https://npm.acme.test/''
                        else None)\<rparr>"

definition exampleWorld :: world where
  "exampleWorld =
     \<lparr>npmrc = (\<lambda>l k. if l = ''user'' \<and> k = ''@acme:registry'' then Some ''https://npm.acme.test/''
                      else None),
      shell = literally, failing = (\<lambda>c. False), childProcess = True,
      unknownSignal = (\<lambda>s. False), events = []\<rparr>"

text \<open>A user configuration whose \<^verbatim>\<open>registry\<close> entry is present and empty.\<close>

definition emptyRegistryConf :: npmConfig where
  "emptyRegistryConf =
     \<lparr>effective = (\<lambda>k. if k = ''registry'' then Some [] else None),
      sources = (\<lambda>l k. if l = ''user'' \<and> k = ''registry'' then Some [] else None)\<rparr>"

definition emptyRegistryWorld :: world where
  "emptyRegistryWorld =
     \<lparr>npmrc = (\<lambda>l k. if l = ''user'' \<and> k = ''registry'' then Some [] else None),
      shell = literally, failing = (\<lambda>c. False), childProcess = True,
      unknownSignal = (\<lambda>s. False), events = []\<rparr>"

text \<open>
  A user configuration whose scoped registry is a URL with an ampersand in it, and an
  environment with a shell that ends a command at an ampersand: of the command that sets
  the key to that URL the package manager gets the value up to the ampersand, and what
  follows the ampersand is not a command, so the line ends with a non-zero exit code.
\<close>

definition queryConf :: npmConfig where
  "queryConf =
     \<lparr>effective = (\<lambda>k. if k = ''@acme:registry'' then Some ''https://npm.acme.test/?a=1&b=2''
                         else None),
      sources = (\<lambda>l k. if l = ''user'' \<and> k = ''@acme:registry''
                        then Some ''https://npm.acme.test/?a=1&b=2'' else None)\<rparr>"

definition ampersandWorld :: world where
  "ampersandWorld =
     \<lparr>npmrc = (\<lambda>l k. if l = ''user'' \<and> k = ''@acme:registry''
                      then Some ''https://npm.acme.test/?a=1&b=2'' else None),
      shell = (\<lambda>c. if c = NpmConfigSet ''@acme:registry'' ''https://npm.acme.test/?a=1&b=2'' ''user''
                    then [(''user'', ''@acme:registry'', Some ''https://npm.acme.test/?a=1'')]
                    else literally c),
      failing = (\<lambda>c. c = NpmConfigSet ''@acme:registry'' ''https://npm.acme.test/?a=1&b=2'' ''user''),
      childProcess = True, unknownSignal = (\<lambda>s. False), events = []\<rparr>"

text \<open>An environment in which the package manager cannot delete configuration keys.\<close>

definition readOnlyWorld :: world where
  "readOnlyWorld =
     \<lparr>npmrc = (\<lambda>l k. None),
      shell = (\<lambda>c. case c of NpmConfigDelete n l \<Rightarrow> [] | NpmConfigSet n v l \<Rightarrow> literally c),
      failing = (\<lambda>c. case c of NpmConfigDelete n l \<Rightarrow> True | NpmConfigSet n v l \<Rightarrow> False),
      childProcess = True, unknownSignal = (\<lambda>s. False), events = []\<rparr>"

definition exampleOptions :: StartRepoExecutorSchema where
  "exampleOptions =
     \<lparr>opt_location = ''user'', opt_storage = None, opt_port = 4873, opt_config = None,
      opt_clear = None\<rparr>"

definition exampleSession :: "childEvent list \<Rightarrow> session" where
  "exampleSession evs =
     \<lparr>verdaccioInstalled = True, workspaceNpmScopes = [''acme''], loadedConf = exampleConf,
      configFileWritable = True, child = Forked evs\<rparr>"

text \<open>
  A build output \<^verbatim>\<open>dist/ui\<close> with a nested directory and an empty one, and a folder
  \<^verbatim>\<open>out\<close> that holds a file already.
\<close>

definition exampleFs :: filesystem where
  "exampleFs =
     [([''dist''], Dir), ([''dist'', ''ui''], Dir),
      ([''dist'', ''ui'', ''index.js''], File ''A''),
      ([''dist'', ''ui'', ''lib''], Dir),
      ([''dist'', ''ui'', ''lib'', ''a.js''], File ''B''),
      ([''dist'', ''ui'', ''empty''], Dir),
      ([''out''], Dir), ([''out'', ''old.txt''], File ''C'')]"

text \<open>
  A host whose package names are valid when they are not empty and hold no space, and
  whose manifests are files that hold a version string and nothing else.
\<close>

definition emptyPackageJson :: PackageJson where
  "emptyPackageJson =
     \<lparr>version = None, dependencies = None, devDependencies = None, peerDependencies = None,
      optionalDependencies = None, bundleDependencies = None\<rparr>"

definition exampleHost :: host where
  "exampleHost =
     \<lparr>validForNewPackages = (\<lambda>name. name \<noteq> [] \<and> CHR '' '' \<notin> set name),
      getPackageJson = (\<lambda>fs p. case stat fs p of
                          None \<Rightarrow> Inr emptyPackageJson
                        | Some (File b) \<Rightarrow> Inr (emptyPackageJson\<lparr>version := Some b\<rparr>)
                        | Some Dir \<Rightarrow> Inl FsError),
      writeFileSync = (\<lambda>p pj fs. (None, AList.update p (File (case version pj of
                          None \<Rightarrow> [] | Some v \<Rightarrow> v)) fs))\<rparr>"

text \<open>
  A workspace with the built library \<^verbatim>\<open>@acme/ui\<close>, and a publish folder whose manifest
  declares \<^verbatim>\<open>lodash\<close> and lists \<^verbatim>\<open>legacy\<close> among its bundled dependencies.
\<close>

definition bundleFs :: filesystem where
  "bundleFs =
     [([''dist''], Dir), ([''dist'', ''app''], Dir),
      ([''dist'', ''app'', ''package.json''], File ''0.0.1''),
      ([''dist'', ''ui''], Dir),
      ([''dist'', ''ui'', ''package.json''], File ''1.2.3''),
      ([''dist'', ''ui'', ''index.js''], File ''A''),
      ([''publish''], Dir), ([''publish'', ''package.json''], File ''0.0.1'')]"

text \<open>The same workspace when the build output of the library holds no manifest.\<close>

definition versionlessFs :: filesystem where
  "versionlessFs =
     [([''dist''], Dir), ([''dist'', ''app''], Dir),
      ([''dist'', ''app'', ''package.json''], File ''0.0.1''),
      ([''dist'', ''ui''], Dir),
      ([''dist'', ''ui'', ''index.js''], File ''A''),
      ([''publish''], Dir), ([''publish'', ''package.json''], File ''0.0.1'')]"

definition uiLib :: BundableLibDependency where
  "uiLib =
     \<lparr>lib_projectName = ''ui'', lib_packageName = ''@acme/ui'', lib_validPackageName = True,
      lib_isScoped = False, lib_distPath = Some [''dist'', ''ui''], lib_npmDeps = []\<rparr>"

definition exampleInfo :: ProjectInfoPlusPlus where
  "exampleInfo =
     \<lparr>distPath = [''dist'', ''app''],
      distPackageJson = emptyPackageJson,
      distNodeModulesPath = [''dist'', ''app'', ''node_modules''],
      distPackageJsonPath = [''dist'', ''app'', ''package.json''],
      publishPath = [''publish''],
      publishPackageJson =
        emptyPackageJson\<lparr>version := Some ''0.0.1'',
          dependencies := Some [(''lodash'', Some ''4.17.0'')],
          bundleDependencies := Some [''legacy'']\<rparr>,
      publishNodeModulesPath = [''publish'', ''node_modules''],
      publishPackageJsonPath = [''publish'', ''package.json''],
      libDeps = [uiLib],
      npmDeps = [\<lparr>npm_packageName = ''lodash'', npm_version = Some ''4.17.21''\<rparr>,
                 \<lparr>npm_packageName = ''tslib'', npm_version = Some ''2.6.0''\<rparr>]\<rparr>"

definition exampleContext :: dependencyContext where
  "exampleContext =
     \<lparr>ctx_dependencies =
        [\<lparr>dep_name = ''@acme/ui'', dep_outputs = [[''dist'', ''ui'']],
          dep_node = \<lparr>node_type = ''lib'', node_name = ''ui'', node_packageName = []\<rparr>\<rparr>,
         \<lparr>dep_name = ''Bad Name'', dep_outputs = [[''dist'', ''bad'']],
          dep_node = \<lparr>node_type = ''lib'', node_name = ''bad'', node_packageName = []\<rparr>\<rparr>,
         \<lparr>dep_name = ''npm:lodash'', dep_outputs = [],
          dep_node = \<lparr>node_type = ''npm'', node_name = ''npm:lodash'', node_packageName = ''lodash''\<rparr>\<rparr>],
      ctx_topLevelDependencies = [],
      ctx_helperTargets = [''npm:tslib''],
      ctx_rootNpmDeps = (\<lambda>d. if d = ''lodash'' then Some ''4.17.21''
                              else if d = ''tslib'' then Some ''2.6.0'' else None),
      ctx_outputs = [[''dist'', ''app'']]\<rparr>"

text \<open>
  The same publish folder with a manifest that lists \<^verbatim>\<open>Bad Name\<close> among its bundled
  dependencies, merged with the libraries that the classifier gives for the workspace.
\<close>

definition legacyInfo :: ProjectInfoPlusPlus where
  "legacyInfo =
     exampleInfo\<lparr>publishPackageJson :=
                    emptyPackageJson\<lparr>version := Some ''0.0.1'',
                      bundleDependencies := Some [''Bad Name'']\<rparr>,
                  libDeps := fst (getProjectDependencies exampleHost exampleContext)\<rparr>"

section \<open>Properties of the generated server configuration\<close>














section \<open>Properties of the configuration snapshot manager\<close>

lemma update_absent: "k \<notin> fst ` set al \<Longrightarrow> AList.update k v al = al @ [(k, v)]"
  by (induction al) auto

lemma captured_entries: "captured m l k = map_of (entries m l) k"
  by (simp add: captured_def entries_def split: option.splits)

lemma entries_store:
  "entries (storeOriginalValue k' l' m) l =
     (if l' = l \<and> k' \<notin> fst ` set (entries m l)
      then entries m l @ [(k', get m k' l)] else entries m l)"
  by (auto simp: storeOriginalValue_def getLocationOriginalValues_def entries_def get_def
      AList.update_conv' update_absent split: option.splits)

lemma originalConf_store [simp]: "originalConf (storeOriginalValue k l m) = originalConf m"
  by (auto simp: storeOriginalValue_def getLocationOriginalValues_def split: option.splits)

lemma set_conf_eq:
  "set_conf name v location (m, w) =
     (fst (execSync (configCommand name v location) w), storeOriginalValue name location m,
      snd (execSync (configCommand name v location) w))"
  by (auto simp: set_conf_def configCommand_def truthy_def Let_def split: option.splits prod.splits)

lemma store_present:
  "map_of (originalValuesForLocations m) l = Some vals \<Longrightarrow> k \<in> fst ` set vals \<Longrightarrow>
   storeOriginalValue k l m = m"
  by (simp add: storeOriginalValue_def getLocationOriginalValues_def)


lemma execSync_kept [simp]:
  "shell (snd (execSync c w)) = shell w" "failing (snd (execSync c w)) = failing w"
  "events (snd (execSync c w)) = events w @ [Exec c]"
  by (simp_all add: execSync_def)

lemma asWritten_execSync [simp]: "asWritten (snd (execSync c w)) = asWritten w"
  by (simp add: asWritten_def fun_eq_iff)

lemma execSync_npmrc:
  "asWritten w (configCommand n v l) \<Longrightarrow>
   npmrc (snd (execSync (configCommand n v l) w)) L k =
     (if L = locationText l \<and> k = n then written v else npmrc w L k)"
  by (auto simp: execSync_def runCommand_def asWritten_def assign_def configCommand_def
      written_def truthy_def split: if_splits option.splits)

lemma forEach_set_npmrc:
  "forEach (\<lambda>(name, v). set_conf name v l) es (m, w) = (None, m', w') \<Longrightarrow>
   list_all (asWritten w) (map (\<lambda>(n, v). configCommand n v l) es) \<Longrightarrow>
   npmrc w' (locationText l) k =
     (case filter (\<lambda>e. fst e = k) es of
        [] \<Rightarrow> npmrc w (locationText l) k
      | e # r \<Rightarrow> written (snd (last (e # r))))"
proof (induction es arbitrary: m w)
  case Nil
  then show ?case by simp
next
  case (Cons e es)
  obtain n v where e: "e = (n, v)" by (cases e)
  let ?w1 = "snd (execSync (configCommand n v l) w)"
  from Cons.prems(1) have rest:
    "forEach (\<lambda>(name, v). set_conf name v l) es (storeOriginalValue n l m, ?w1) = (None, m', w')"
    by (auto simp: e set_conf_eq split: option.splits)
  from Cons.prems(2) have aw: "asWritten w (configCommand n v l)"
    and aws: "list_all (asWritten ?w1) (map (\<lambda>(n, v). configCommand n v l) es)"
    by (simp_all add: e)
  note ih = Cons.IH [OF rest aws]
  have w1: "npmrc ?w1 (locationText l) k = (if k = n then written v else npmrc w (locationText l) k)"
    using execSync_npmrc [OF aw, of "locationText l" k] by simp
  show ?case
    by (cases "filter (\<lambda>e. fst e = k) es") (auto simp: ih w1 e)
qed

lemma filter_entries_store:
  "k \<in> fst ` set (entries m l) \<Longrightarrow>
   filter (\<lambda>e. fst e = k) (entries (storeOriginalValue k' l' m) l) =
   filter (\<lambda>e. fst e = k) (entries m l)"
  by (auto simp: entries_store)

lemma filter_nonempty_mem: "filter (\<lambda>e. fst e = k) es = [x] \<Longrightarrow> k \<in> fst ` set es"
proof -
  assume a: "filter (\<lambda>e. fst e = k) es = [x]"
  have "x \<in> set (filter (\<lambda>e. fst e = k) es)" by (simp add: a)
  then have "x \<in> set es \<and> fst x = k" by simp
  then show ?thesis by force
qed

lemma setCalls_keeps:
  "filter (\<lambda>e. fst e = k) (entries (fst s) l) = [x] \<Longrightarrow>
   filter (\<lambda>e. fst e = k) (entries (fst (setCalls calls s)) l) = [x]
   \<and> originalConf (fst (setCalls calls s)) = originalConf (fst s)"
proof (induction calls arbitrary: s)
  case Nil
  then show ?case by simp
next
  case (Cons c calls)
  obtain n v l' where c: "c = (n, v, l')" by (cases c)
  obtain m w where s: "s = (m, w)" by (cases s)
  have k: "k \<in> fst ` set (entries m l)"
    using Cons.prems filter_nonempty_mem s by fastforce
  have "filter (\<lambda>e. fst e = k) (entries (fst (snd (set_conf n v l' s))) l) = [x]"
    using Cons.prems by (simp add: s set_conf_eq filter_entries_store [OF k])
  from Cons.IH [OF this] show ?case
    by (simp add: c s set_conf_eq)
qed

lemma first_set_entries:
  assumes "captured m l k = None"
  shows "filter (\<lambda>e. fst e = k) (entries (storeOriginalValue k l m) l) = [(k, get m k l)]"
proof -
  from assms have "k \<notin> fst ` set (entries m l)"
    by (simp add: captured_entries map_of_eq_None_iff)
  then show ?thesis
    by (auto simp: entries_store filter_empty_conv)
qed

lemma restore_eq:
  "restore l (m, w) =
     forEach (\<lambda>(name, v). set_conf name v l) (entries m l) (snd (getLocationOriginalValues l m), w)"
  by (simp add: restore_def entries_def getLocationOriginalValues_def split: option.splits)

lemma map_of_filter_single:
  "filter (\<lambda>e. fst e = k) es = [(k, v)] \<Longrightarrow> map_of es k = Some v"
  by (induction es) (auto split: if_splits simp: filter_empty_conv map_of_eq_None_iff [symmetric])

text \<open>
  Claim C2, as amended. Take a pair (key, scope) that has not been captured, a first
  \<^verbatim>\<open>set\<close> call for it, any further \<^verbatim>\<open>set\<close> calls, and then a \<^verbatim>\<open>restore\<close> of the
  scope that completes and whose commands the environment carries out as written. The
  value recorded for the pair is still the one read by the first call, and \<^verbatim>\<open>restore\<close>
  leaves the key with that value when it is a non-empty string; when the recorded value
  is undefined or the empty string, \<^verbatim>\<open>restore\<close> deletes the key. Nothing is said of a
  restoration with a command that the shell or the package manager reads otherwise, as
  they do for a recorded value with a space or a shell metacharacter in it.
\<close>

theorem restore_writes_first_recorded:
  assumes "captured m location name = None"
    and "setCalls ((name, v, location) # calls) (m, w) = (m1, w1)"
    and "restore location (m1, w1) = (None, m2, w2)"
    and "list_all (asWritten w1) (restoreCommands m1 [location])"
  shows "captured m1 location name = Some (get m name location)
       \<and> npmrc w2 (locationText location) name =
           (if truthy (get m name location) then get m name location else None)"
proof -
  let ?s = "snd (set_conf name v location (m, w))"
  have f0: "filter (\<lambda>e. fst e = name) (entries (fst ?s) location) = [(name, get m name location)]"
    using first_set_entries [OF assms(1)] by (simp add: set_conf_eq)
  have m1: "fst (setCalls calls ?s) = m1"
    using assms(2) by simp
  have f1: "filter (\<lambda>e. fst e = name) (entries m1 location) = [(name, get m name location)]"
    using setCalls_keeps [OF f0, of calls] m1 by simp
  have c1: "captured m1 location name = Some (get m name location)"
    using map_of_filter_single [OF f1] by (simp add: captured_entries)
  from assms(3) have r:
    "forEach (\<lambda>(name, v). set_conf name v location) (entries m1 location)
       (snd (getLocationOriginalValues location m1), w1) = (None, m2, w2)"
    by (simp add: restore_eq)
  from assms(4) have
    "list_all (asWritten w1) (map (\<lambda>(n, v). configCommand n v location) (entries m1 location))"
    by (simp add: restoreCommands_def)
  from forEach_set_npmrc [OF r this, of name]
  have "npmrc w2 (locationText location) name = written (get m name location)"
    by (simp add: f1)
  with c1 show ?thesis by (simp add: written_def)
qed

theorem restore_writes_first_recorded_witness:
  "npmrc (snd (snd (restore (Some ''user'')
         (setCalls [(''@acme:registry'', Some ''http://localhost:4873/'', Some ''user''),
                    (''@acme:registry'', Some ''http://localhost:9999/'', Some ''user'')]
            (new_NpmConfManager exampleConf, exampleWorld))))) ''user'' ''@acme:registry''
     = Some ''https://npm.acme.test/''"
proof -
  let ?m = "new_NpmConfManager exampleConf"
  let ?calls = "[(''@acme:registry'', Some ''http://localhost:9999/'', Some ''user'')]"
  let ?s1 = "setCalls ((''@acme:registry'', Some ''http://localhost:4873/'', Some ''user'') # ?calls)
               (?m, exampleWorld)"
  have h1: "captured ?m (Some ''user'') ''@acme:registry'' = None"
    by (simp add: captured_def new_NpmConfManager_def)
  have h2: "?s1 = (fst ?s1, snd ?s1)" by simp
  have "fst (restore (Some ''user'') (fst ?s1, snd ?s1)) = None"
    by (simp add: restore_def set_conf_def storeOriginalValue_def getLocationOriginalValues_def
        new_NpmConfManager_def exampleConf_def exampleWorld_def execSync_def get_def conf_get_def
        locationText_def Let_def)
  then have h3: "restore (Some ''user'') (fst ?s1, snd ?s1)
      = (None, fst (snd (restore (Some ''user'') ?s1)), snd (snd (restore (Some ''user'') ?s1)))"
    by (metis prod.collapse)
  have h4: "list_all (asWritten (snd ?s1)) (restoreCommands (fst ?s1) [Some ''user''])"
    by (simp add: set_conf_eq asWritten_def exampleWorld_def restoreCommands_def entries_def
        storeOriginalValue_def getLocationOriginalValues_def new_NpmConfManager_def)
  from restore_writes_first_recorded [OF h1 h2 h3 h4]
  show ?thesis
    by (simp add: get_def new_NpmConfManager_def conf_get_def exampleConf_def truthy_def locationText_def)
qed

text \<open>
  The claim as stated fails for a recorded value that is the empty string: the user
  configuration holds \<^verbatim>\<open>registry=\<close>, the first \<^verbatim>\<open>set\<close> records the empty string, and
  \<^verbatim>\<open>restore\<close>, whose one command is carried out as written, completes and leaves the key
  deleted.
\<close>

theorem restore_empty_value_counterexample:
  "captured (fst (setCalls [(''registry'', Some ''http://localhost:4873/'', Some ''user'')]
                    (new_NpmConfManager emptyRegistryConf, emptyRegistryWorld)))
      (Some ''user'') ''registry'' = Some (Some [])
   \<and> fst (restore (Some ''user'')
           (setCalls [(''registry'', Some ''http://localhost:4873/'', Some ''user'')]
              (new_NpmConfManager emptyRegistryConf, emptyRegistryWorld))) = None
   \<and> npmrc (snd (snd (restore (Some ''user'')
           (setCalls [(''registry'', Some ''http://localhost:4873/'', Some ''user'')]
              (new_NpmConfManager emptyRegistryConf, emptyRegistryWorld))))) ''user'' ''registry''
       = None"
  by (simp add: captured_def restore_def set_conf_def storeOriginalValue_def
      getLocationOriginalValues_def new_NpmConfManager_def emptyRegistryConf_def
      emptyRegistryWorld_def execSync_def runCommand_def assign_def get_def conf_get_def
      locationText_def Let_def)

text \<open>
  A restoration with a command that is not carried out as written: the recorded value has
  an ampersand in it, \<^verbatim>\<open>restore\<close> throws, and the key is left with the value cut at the
  ampersand.
\<close>

lemma restore_unquoted_value:
  "captured (fst (setCalls [(''@acme:registry'', Some ''http://localhost:4873/'', Some ''user'')]
                    (new_NpmConfManager queryConf, ampersandWorld)))
      (Some ''user'') ''@acme:registry'' = Some (Some ''https://npm.acme.test/?a=1&b=2'')
   \<and> fst (restore (Some ''user'')
           (setCalls [(''@acme:registry'', Some ''http://localhost:4873/'', Some ''user'')]
              (new_NpmConfManager queryConf, ampersandWorld)))
       = Some (CommandFailed
           (NpmConfigSet ''@acme:registry'' ''https://npm.acme.test/?a=1&b=2'' ''user''))
   \<and> npmrc (snd (snd (restore (Some ''user'')
           (setCalls [(''@acme:registry'', Some ''http://localhost:4873/'', Some ''user'')]
              (new_NpmConfManager queryConf, ampersandWorld))))) ''user'' ''@acme:registry''
       = Some ''https://npm.acme.test/?a=1''"
  by (simp add: captured_def restore_def set_conf_def storeOriginalValue_def
      getLocationOriginalValues_def new_NpmConfManager_def queryConf_def
      ampersandWorld_def execSync_def runCommand_def assign_def get_def conf_get_def
      locationText_def Let_def)

text \<open>
  Claim C4, as amended. The first \<^verbatim>\<open>set\<close> call for a pair (key, scope) records one value
  for the pair, the scope-local value of the key in the configuration loaded by the
  constructor; the effective value is not recorded. The value is recorded whether or not
  the command of that call then fails, that command is the only thing the call does to the
  outside, and no later \<^verbatim>\<open>set\<close> call changes the recorded value or the loaded
  configuration.
\<close>

theorem first_set_captures_once:
  assumes "captured m location name = None"
    and "set_conf name v location (m, w) = (r, m1, w1)"
    and "setCalls calls (m1, w1) = (m2, w2)"
  shows "captured m1 location name = Some (conf_get (originalConf m) name location)
       \<and> captured m2 location name = Some (conf_get (originalConf m) name location)
       \<and> originalConf m2 = originalConf m
       \<and> events w1 = events w @ [Exec (configCommand name v location)]"
proof -
  have m1: "m1 = storeOriginalValue name location m"
    and w1: "w1 = snd (execSync (configCommand name v location) w)"
    using assms(2) by (simp_all add: set_conf_eq)
  have f0: "filter (\<lambda>e. fst e = name) (entries (fst (m1, w1)) location) = [(name, get m name location)]"
    using first_set_entries [OF assms(1)] by (simp add: m1)
  from setCalls_keeps [OF f0, of calls] assms(3)
  have f2: "filter (\<lambda>e. fst e = name) (entries m2 location) = [(name, get m name location)]"
    and c2: "originalConf m2 = originalConf m1"
    by simp_all
  have "captured m1 location name = Some (get m name location)"
    using map_of_filter_single f0 by (simp add: captured_entries)
  moreover have "captured m2 location name = Some (get m name location)"
    using map_of_filter_single [OF f2] by (simp add: captured_entries)
  moreover have "events w1 = events w @ [Exec (configCommand name v location)]"
    by (simp add: w1 execSync_def)
  ultimately show ?thesis
    using c2 by (simp add: get_def m1)
qed

theorem first_set_captures_once_witness:
  "captured (fst (setCalls [(''@acme:registry'', Some ''http://localhost:9999/'', Some ''user'')]
       (snd (set_conf ''@acme:registry'' (Some ''http://localhost:4873/'') (Some ''user'')
          (new_NpmConfManager exampleConf, exampleWorld)))))
     (Some ''user'') ''@acme:registry'' = Some (Some ''https://npm.acme.test/'')"
proof -
  let ?m = "new_NpmConfManager exampleConf"
  let ?r = "set_conf ''@acme:registry'' (Some ''http://localhost:4873/'') (Some ''user'')
              (?m, exampleWorld)"
  let ?s2 = "setCalls [(''@acme:registry'', Some ''http://localhost:9999/'', Some ''user'')] (snd ?r)"
  have h1: "captured ?m (Some ''user'') ''@acme:registry'' = None"
    by (simp add: captured_def new_NpmConfManager_def)
  have h2: "?r = (fst ?r, fst (snd ?r), snd (snd ?r))" by simp
  have h3: "setCalls [(''@acme:registry'', Some ''http://localhost:9999/'', Some ''user'')]
              (fst (snd ?r), snd (snd ?r)) = (fst ?s2, snd ?s2)" by simp
  from first_set_captures_once [OF h1 h2 h3]
  show ?thesis
    by (simp add: new_NpmConfManager_def conf_get_def exampleConf_def)
qed

text \<open>
  The claim as stated has the first \<^verbatim>\<open>set\<close> store the effective value as well. Here the
  effective value of \<^verbatim>\<open>registry\<close> is a URL and its user-level value is undefined; after
  the first \<^verbatim>\<open>set\<close> the snapshot holds the undefined user-level value and nothing else.
\<close>

theorem first_set_effective_counterexample:
  "getForLocation (new_NpmConfManager exampleConf) ''registry'' (Some ''user'')
     = (Some ''https://registry.npmjs.org/'', None)
   \<and> originalValuesForLocations
       (fst (snd (set_conf ''registry'' (Some ''http://localhost:4873/'') (Some ''user'')
          (new_NpmConfManager exampleConf, exampleWorld))))
     = [(Some ''user'', [(''registry'', None)])]"
  by (simp add: getForLocation_def set_conf_def storeOriginalValue_def
      getLocationOriginalValues_def new_NpmConfManager_def exampleConf_def exampleWorld_def
      execSync_def get_def conf_get_def locationText_def Let_def)

lemma forEach_append:
  "forEach f (xs @ ys) s =
     (case forEach f xs s of (Some e, s') \<Rightarrow> (Some e, s') | (None, s') \<Rightarrow> forEach f ys s')"
  by (induction xs arbitrary: s) (auto split: prod.splits option.splits)

lemma forEach_set_commands:
  assumes "map_of (originalValuesForLocations m) l = Some vals"
    and "fst ` set es \<subseteq> fst ` set vals"
  shows "forEach (\<lambda>(name, v). set_conf name v l) es (m, w) =
     (case forEach execSync (map (\<lambda>(n, v). configCommand n v l) es) w of (r, w') \<Rightarrow> (r, m, w'))"
  using assms(2)
proof (induction es arbitrary: w)
  case Nil
  then show ?case by simp
next
  case (Cons e es)
  obtain n v where e: "e = (n, v)" by (cases e)
  have "storeOriginalValue n l m = m"
    using store_present [OF assms(1)] Cons.prems e by simp
  with Cons show ?case
    by (auto simp: e set_conf_eq split: prod.splits option.splits)
qed

lemma restore_commands:
  assumes "l \<in> fst ` set (originalValuesForLocations m)"
  shows "restore l (m, w) =
     (case forEach execSync (map (\<lambda>(n, v). configCommand n v l) (entries m l)) w of
        (r, w') \<Rightarrow> (r, m, w'))"
proof -
  from assms obtain vals where v: "map_of (originalValuesForLocations m) l = Some vals"
    by (metis domD dom_map_of_conv_image_fst)
  then have "restore l (m, w) = forEach (\<lambda>(name, v). set_conf name v l) vals (m, w)"
    by (simp add: restore_def getLocationOriginalValues_def)
  also have "\<dots> = (case forEach execSync (map (\<lambda>(n, v). configCommand n v l) vals) w of
        (r, w') \<Rightarrow> (r, m, w'))"
    by (rule forEach_set_commands [OF v]) simp
  finally show ?thesis by (simp add: entries_def v)
qed

lemma forEach_restore_commands:
  "set ls \<subseteq> fst ` set (originalValuesForLocations m) \<Longrightarrow>
   forEach restore ls (m, w) =
     (case forEach execSync (restoreCommands m ls) w of (r, w') \<Rightarrow> (r, m, w'))"
proof (induction ls arbitrary: w)
  case Nil
  then show ?case by (simp add: restoreCommands_def)
next
  case (Cons l ls)
  then have l: "l \<in> fst ` set (originalValuesForLocations m)"
    and ih: "\<And>w. forEach restore ls (m, w) =
       (case forEach execSync (restoreCommands m ls) w of (r, w') \<Rightarrow> (r, m, w'))"
    by simp_all
  have rc: "restoreCommands m (l # ls) =
      map (\<lambda>(n, v). configCommand n v l) (entries m l) @ restoreCommands m ls"
    by (simp add: restoreCommands_def)
  show ?case
    by (simp add: restore_commands [OF l] rc forEach_append ih split: prod.splits option.splits)
qed

lemma restoreAll_commands:
  "restoreAll (m, w) =
     (case forEach execSync (restoreCommands m (map fst (originalValuesForLocations m))) w of
        (r, w') \<Rightarrow> (r, m, w'))"
  by (simp add: restoreAll_def forEach_restore_commands)

text \<open>
  A loop of commands runs them up to the first that fails, that one included, and leaves
  written what they wrote, one after the other.
\<close>

lemma forEach_execSync:
  "failing w = F \<Longrightarrow> shell w = S \<Longrightarrow>
   forEach execSync cs w =
     (case dropWhile (\<lambda>c. \<not> F c) cs of [] \<Rightarrow> None | c # r \<Rightarrow> Some (CommandFailed c),
      w\<lparr>npmrc := fold assign
           (concat (map S (takeWhile (\<lambda>c. \<not> F c) cs @ take 1 (dropWhile (\<lambda>c. \<not> F c) cs))))
           (npmrc w),
        events := events w @ map Exec (takeWhile (\<lambda>c. \<not> F c) cs @ take 1 (dropWhile (\<lambda>c. \<not> F c) cs))\<rparr>)"
proof (induction cs arbitrary: w)
  case Nil
  then show ?case by simp
next
  case (Cons c cs)
  show ?case
  proof (cases "F c")
    case True
    with Cons.prems show ?thesis by (simp add: execSync_def runCommand_def)
  next
    case False
    let ?w1 = "w\<lparr>npmrc := runCommand w c, events := events w @ [Exec c]\<rparr>"
    have "failing ?w1 = F" "shell ?w1 = S" using Cons.prems by simp_all
    from Cons.IH [OF this] False Cons.prems show ?thesis
      by (simp add: execSync_def runCommand_def)
  qed
qed

text \<open>
  After a list of writes a key holds the value of the last write to it, whatever it held
  before; so writing the list a second time changes nothing.
\<close>

lemma assign_at: "assign (l', k', v) rc l k = (if l = l' \<and> k = k' then v else rc l k)"
  by (simp add: assign_def)

lemma fold_assign_at:
  "fold assign ws rc l k =
     (case filter (\<lambda>a. fst a = l \<and> fst (snd a) = k) ws of
        [] \<Rightarrow> rc l k
      | x # xs \<Rightarrow> snd (snd (last (x # xs))))"
proof (induction ws rule: rev_induct)
  case Nil
  show ?case by simp
next
  case (snoc a ws)
  obtain l' k' v where a: "a = (l', k', v)" by (cases a)
  show ?case
    by (cases "filter (\<lambda>a. fst a = l \<and> fst (snd a) = k) ws")
       (auto simp: snoc a assign_at)
qed

lemma fold_assign_idem:
  "fold assign ws (fold assign ws rc) = fold assign ws rc"
  by (rule ext, rule ext) (simp add: fold_assign_at split: list.splits)

text \<open>
  Claim C10. A second \<^verbatim>\<open>restoreAll\<close> right after a first one runs the same commands as
  the first, ends the same way, and leaves the snapshots and the configuration files as
  the first call left them; neither call changes the snapshots.
\<close>

theorem restoreAll_idempotent:
  assumes "restoreAll (m, w) = (r1, m1, w1)"
    and "restoreAll (m1, w1) = (r2, m2, w2)"
  shows "m1 = m \<and> m2 = m \<and> r2 = r1 \<and> npmrc w2 = npmrc w1
       \<and> (\<exists>cs. events w1 = events w @ map Exec cs \<and> events w2 = events w1 @ map Exec cs)"
proof -
  let ?cs = "restoreCommands m (map fst (originalValuesForLocations m))"
  let ?F = "failing w"
  let ?S = "shell w"
  let ?ok = "\<lambda>c. \<not> ?F c"
  let ?ran = "takeWhile ?ok ?cs @ take 1 (dropWhile ?ok ?cs)"
  have a: "(r1, m1, w1) = (case forEach execSync ?cs w of (r, w') \<Rightarrow> (r, m, w'))"
    using assms(1) by (simp add: restoreAll_commands)
  note e1 = forEach_execSync [of w ?F ?S ?cs, OF refl refl]
  from a have m1: "m1 = m"
    and r1: "r1 = (case dropWhile ?ok ?cs of [] \<Rightarrow> None | c # r \<Rightarrow> Some (CommandFailed c))"
    and w1: "w1 = w\<lparr>npmrc := fold assign (concat (map ?S ?ran)) (npmrc w),
        events := events w @ map Exec ?ran\<rparr>"
    by (simp_all add: e1)
  have F1: "failing w1 = ?F" and S1: "shell w1 = ?S" by (simp_all add: w1)
  have b: "(r2, m2, w2) = (case forEach execSync ?cs w1 of (r, w') \<Rightarrow> (r, m, w'))"
    using assms(2) by (simp add: restoreAll_commands m1)
  note e2 = forEach_execSync [of w1 ?F ?S ?cs, OF F1 S1]
  from b have m2: "m2 = m"
    and r2: "r2 = (case dropWhile ?ok ?cs of [] \<Rightarrow> None | c # r \<Rightarrow> Some (CommandFailed c))"
    and w2: "w2 = w1\<lparr>npmrc := fold assign (concat (map ?S ?ran)) (npmrc w1),
        events := events w1 @ map Exec ?ran\<rparr>"
    by (simp_all add: e2)
  have n1: "npmrc w1 = fold assign (concat (map ?S ?ran)) (npmrc w)" by (simp add: w1)
  have n2: "npmrc w2 = fold assign (concat (map ?S ?ran)) (npmrc w1)" by (simp add: w2)
  have n: "npmrc w2 = npmrc w1"
    unfolding n2 unfolding n1 by (rule fold_assign_idem)
  have ev: "events w1 = events w @ map Exec ?ran \<and> events w2 = events w1 @ map Exec ?ran"
    by (simp add: w2) (simp add: w1)
  then have "\<exists>cs. events w1 = events w @ map Exec cs \<and> events w2 = events w1 @ map Exec cs"
    by blast
  with m1 m2 r1 r2 n show ?thesis by simp
qed

theorem restoreAll_idempotent_witness:
  "npmrc (snd (snd (restoreAll (snd (restoreAll
       (setCalls [(''@acme:registry'', Some ''http://localhost:4873/'', Some ''user''),
                  (''registry'', Some ''http://localhost:4873/'', Some ''user'')]
          (new_NpmConfManager exampleConf, exampleWorld)))))))
   = npmrc (snd (snd (restoreAll
       (setCalls [(''@acme:registry'', Some ''http://localhost:4873/'', Some ''user''),
                  (''registry'', Some ''http://localhost:4873/'', Some ''user'')]
          (new_NpmConfManager exampleConf, exampleWorld)))))
   \<and> fst (snd (restoreAll
       (setCalls [(''@acme:registry'', Some ''http://localhost:4873/'', Some ''user''),
                  (''registry'', Some ''http://localhost:4873/'', Some ''user'')]
          (new_NpmConfManager exampleConf, exampleWorld))))
     = fst (setCalls [(''@acme:registry'', Some ''http://localhost:4873/'', Some ''user''),
                  (''registry'', Some ''http://localhost:4873/'', Some ''user'')]
          (new_NpmConfManager exampleConf, exampleWorld))"
proof -
  let ?s = "setCalls [(''@acme:registry'', Some ''http://localhost:4873/'', Some ''user''),
                  (''registry'', Some ''http://localhost:4873/'', Some ''user'')]
          (new_NpmConfManager exampleConf, exampleWorld)"
  let ?a = "restoreAll ?s"
  let ?b = "restoreAll (snd ?a)"
  have h1: "restoreAll (fst ?s, snd ?s) = (fst ?a, fst (snd ?a), snd (snd ?a))" by simp
  have h2: "restoreAll (fst (snd ?a), snd (snd ?a)) = (fst ?b, fst (snd ?b), snd (snd ?b))" by simp
  from restoreAll_idempotent [OF h1 h2] show ?thesis by simp
qed

lemma restoreAll_events:
  "restoreAll (m, w) = (r, m', w') \<Longrightarrow> \<exists>cs. events w' = events w @ map Exec cs"
proof -
  assume a: "restoreAll (m, w) = (r, m', w')"
  let ?cs = "restoreCommands m (map fst (originalValuesForLocations m))"
  let ?ok = "\<lambda>c. \<not> failing w c"
  have "events w' = events w @ map Exec (takeWhile ?ok ?cs @ take 1 (dropWhile ?ok ?cs))"
    using a forEach_execSync [of w "failing w" "shell w" ?cs, OF refl refl]
    by (auto simp: restoreAll_commands)
  then show ?thesis by blast
qed

text \<open>
  Claim C8. When the exit listener has signalled the child process, if there is one, and
  \<^verbatim>\<open>restoreAll\<close> then throws, the listener ends without an exception: the error is
  written to the console and nothing else is done with it. The signal to the child comes
  before every command of the restoration.
\<close>

theorem processExitListener_swallows_restore_error:
  assumes "childProcess w \<Longrightarrow> \<not> unknownSignal w sig"
    and "restoreAll (m, if childProcess w then w\<lparr>events := events w @ [Kill sig]\<rparr> else w)
           = (Some e, m2, w2)"
  shows "processExitListener sig (m, w) = (None, m2, w2\<lparr>events := events w2 @ [ConsoleError e]\<rparr>)
       \<and> (childProcess w \<longrightarrow> (\<exists>cs. events w2 = events w @ Kill sig # map Exec cs))"
proof -
  have 1: "processExitListener sig (m, w) = (None, m2, w2\<lparr>events := events w2 @ [ConsoleError e]\<rparr>)"
    using assms by (auto simp: processExitListener_def kill_def)
  have 2: "childProcess w \<longrightarrow> (\<exists>cs. events w2 = events w @ Kill sig # map Exec cs)"
    using restoreAll_events [OF assms(2)] by auto
  from 1 2 show ?thesis by simp
qed

theorem processExitListener_swallows_restore_error_witness:
  "fst (processExitListener (SignalName ''SIGINT'')
          (setCalls [(''registry'', Some ''http://localhost:4873/'', Some ''user'')]
             (new_NpmConfManager exampleConf, readOnlyWorld))) = None
   \<and> events (snd (snd (processExitListener (SignalName ''SIGINT'')
          (setCalls [(''registry'', Some ''http://localhost:4873/'', Some ''user'')]
             (new_NpmConfManager exampleConf, readOnlyWorld)))))
     = [Exec (NpmConfigSet ''registry'' ''http://localhost:4873/'' ''user''),
        Kill (SignalName ''SIGINT''),
        Exec (NpmConfigDelete ''registry'' ''user''),
        ConsoleError (CommandFailed (NpmConfigDelete ''registry'' ''user''))]"
proof -
  let ?s = "setCalls [(''registry'', Some ''http://localhost:4873/'', Some ''user'')]
             (new_NpmConfManager exampleConf, readOnlyWorld)"
  let ?sig = "SignalName ''SIGINT''"
  let ?w1 = "if childProcess (snd ?s) then (snd ?s)\<lparr>events := events (snd ?s) @ [Kill ?sig]\<rparr>
             else snd ?s"
  let ?a = "restoreAll (fst ?s, ?w1)"
  have h1: "childProcess (snd ?s) \<Longrightarrow> \<not> unknownSignal (snd ?s) ?sig"
    by (simp add: set_conf_def execSync_def readOnlyWorld_def Let_def)
  have f: "fst ?a = Some (CommandFailed (NpmConfigDelete ''registry'' ''user''))"
    by (simp add: restoreAll_def restore_def set_conf_def storeOriginalValue_def
        getLocationOriginalValues_def new_NpmConfManager_def exampleConf_def readOnlyWorld_def
        execSync_def get_def conf_get_def locationText_def Let_def)
  have ev0: "events (snd (snd ?a)) =
      [Exec (NpmConfigSet ''registry'' ''http://localhost:4873/'' ''user''),
       Kill ?sig, Exec (NpmConfigDelete ''registry'' ''user'')]"
    by (simp add: restoreAll_def restore_def set_conf_def storeOriginalValue_def
        getLocationOriginalValues_def new_NpmConfManager_def exampleConf_def readOnlyWorld_def
        execSync_def get_def conf_get_def locationText_def Let_def)
  obtain m2 w2 where a: "?a = (Some (CommandFailed (NpmConfigDelete ''registry'' ''user'')), m2, w2)"
    using f by (metis prod.collapse)
  have ev: "events w2 =
      [Exec (NpmConfigSet ''registry'' ''http://localhost:4873/'' ''user''),
       Kill ?sig, Exec (NpmConfigDelete ''registry'' ''user'')]"
    using ev0 unfolding a by simp
  from processExitListener_swallows_restore_error [OF h1 a]
  have "processExitListener ?sig (fst ?s, snd ?s) =
      (None, m2, w2\<lparr>events := events w2 @
         [ConsoleError (CommandFailed (NpmConfigDelete ''registry'' ''user''))]\<rparr>)"
    by (rule conjunct1)
  then show ?thesis by (simp add: ev)
qed

section \<open>Properties of the session orchestrator\<close>

lemma settle_settled: "p \<noteq> Pending \<Longrightarrow> settle p e = p"
  by (cases p) auto

lemma foldl_settle_settled: "p \<noteq> Pending \<Longrightarrow> foldl settle p evs = p"
  by (induction evs) (auto simp: settle_settled)

lemma settle_Pending: "settle Pending e \<noteq> Pending"
  by (cases e) auto

lemma startVerdaccio_Forked:
  "startVerdaccio (Forked evs) = (case evs of [] \<Rightarrow> Pending | e # rest \<Rightarrow> settle Pending e)"
  by (cases evs) (simp_all add: startVerdaccio_def foldl_settle_settled settle_Pending)

lemma startVerdaccio_Resolved:
  "startVerdaccio l = Resolved c \<Longrightarrow> \<exists>rest. l = Forked (ChildExit (Some 0) # rest)"
proof (cases l)
  case (ForkThrew err)
  assume "startVerdaccio l = Resolved c"
  with ForkThrew show ?thesis by (simp add: startVerdaccio_def)
next
  case (Forked evs)
  assume a: "startVerdaccio l = Resolved c"
  show ?thesis
  proof (cases evs)
    case Nil
    with a Forked show ?thesis by (simp add: startVerdaccio_Forked)
  next
    case (Cons e rest)
    with a Forked have "settle Pending e = Resolved c" by (simp add: startVerdaccio_Forked)
    then have "e = ChildExit (Some 0)" by (cases e) (auto split: if_splits)
    with Cons Forked show ?thesis by simp
  qed
qed

lemma startVerdaccio_Rejected_running:
  assumes "startVerdaccio l = Rejected x" and "childRunning l"
  shows "\<exists>e rest. l = Forked (e # rest) \<and> (e = ChildDisconnect \<or> (\<exists>err. e = ChildError err))"
proof (cases l)
  case (ForkThrew err)
  with assms(2) show ?thesis by (simp add: childRunning_def)
next
  case (Forked evs)
  show ?thesis
  proof (cases evs)
    case Nil
    with assms(1) Forked show ?thesis by (simp add: startVerdaccio_Forked)
  next
    case (Cons e rest)
    with assms(2) Forked have "\<not> isExit e" by (simp add: childRunning_def)
    then have "e = ChildDisconnect \<or> (\<exists>err. e = ChildError err)" by (cases e) auto
    with Cons Forked show ?thesis by simp
  qed
qed

lemma runExecutor_prepared:
  "prepare options env w = (None, m, w') \<Longrightarrow>
   fst (runExecutor options env w) =
     (case startVerdaccio (child env) of
        Pending \<Rightarrow> Waiting
      | Rejected e \<Rightarrow> Returned \<lparr>success = False, port = opt_port options\<rparr>
      | Resolved c \<Rightarrow> Returned \<lparr>success = True, port = opt_port options\<rparr>)"
  by (simp add: runExecutor_def)

text \<open>
  Claim C5, as amended. Once the preparation has gone through, the orchestrator returns
  \<^verbatim>\<open>{success: false, port}\<close> whenever the launch promise rejects; it returns
  \<^verbatim>\<open>{success: true, port}\<close> only when the first event of the child is its exit with code
  0; and it has not returned as long as the child has emitted no event. It can return while
  the child is still running, and then with \<^verbatim>\<open>success: false\<close>, on an \<^verbatim>\<open>error\<close> or a
  \<^verbatim>\<open>disconnect\<close> event of the child.
\<close>

theorem runExecutor_launch_result:
  assumes "fst (prepare options env w) = None"
  shows "(\<forall>x. startVerdaccio (child env) = Rejected x \<longrightarrow>
            fst (runExecutor options env w) = Returned \<lparr>success = False, port = opt_port options\<rparr>)
       \<and> (\<forall>p. fst (runExecutor options env w) = Returned \<lparr>success = True, port = p\<rparr> \<longrightarrow>
            p = opt_port options \<and> (\<exists>rest. child env = Forked (ChildExit (Some 0) # rest)))
       \<and> (child env = Forked [] \<longrightarrow> fst (runExecutor options env w) = Waiting)
       \<and> (\<forall>r. fst (runExecutor options env w) = Returned r \<and> childRunning (child env) \<longrightarrow>
            r = \<lparr>success = False, port = opt_port options\<rparr>
            \<and> (\<exists>e rest. child env = Forked (e # rest)
                   \<and> (e = ChildDisconnect \<or> (\<exists>err. e = ChildError err))))"
proof -
  obtain m w' where p: "prepare options env w = (None, m, w')"
    using assms by (metis prod.collapse)
  note r = runExecutor_prepared [OF p]
  have 1: "\<forall>x. startVerdaccio (child env) = Rejected x \<longrightarrow>
            fst (runExecutor options env w) = Returned \<lparr>success = False, port = opt_port options\<rparr>"
    by (simp add: r)
  have 2: "\<forall>p. fst (runExecutor options env w) = Returned \<lparr>success = True, port = p\<rparr> \<longrightarrow>
            p = opt_port options \<and> (\<exists>rest. child env = Forked (ChildExit (Some 0) # rest))"
    using startVerdaccio_Resolved [of "child env"]
    by (auto simp: r split: promise.splits)
  have 3: "child env = Forked [] \<longrightarrow> fst (runExecutor options env w) = Waiting"
    by (simp add: r startVerdaccio_Forked)
  have 4: "\<forall>r. fst (runExecutor options env w) = Returned r \<and> childRunning (child env) \<longrightarrow>
            r = \<lparr>success = False, port = opt_port options\<rparr>
            \<and> (\<exists>e rest. child env = Forked (e # rest)
                   \<and> (e = ChildDisconnect \<or> (\<exists>err. e = ChildError err)))"
  proof (intro allI impI, elim conjE)
    fix res
    assume a: "fst (runExecutor options env w) = Returned res" and b: "childRunning (child env)"
    show "res = \<lparr>success = False, port = opt_port options\<rparr>
            \<and> (\<exists>e rest. child env = Forked (e # rest)
                   \<and> (e = ChildDisconnect \<or> (\<exists>err. e = ChildError err)))"
    proof (cases "startVerdaccio (child env)")
      case Pending
      with a show ?thesis by (simp add: r)
    next
      case (Resolved c)
      from startVerdaccio_Resolved [OF this] b show ?thesis
        by (auto simp: childRunning_def)
    next
      case (Rejected x)
      from startVerdaccio_Rejected_running [OF this b] a Rejected show ?thesis
        by (simp add: r)
    qed
  qed
  from 1 2 3 4 show ?thesis by blast
qed

lemma prepare_example:
  "fst (prepare exampleOptions (exampleSession evs) exampleWorld) = None"
  by (simp add: prepare_def exampleSession_def exampleOptions_def configureNpm_def
      getNpmRegistriesConfig_def mapNpmScopesToConfItems_def createScopedRegistryConfigItem_def
      npmRegistry_def getForLocation_def get_def new_NpmConfManager_def set_conf_def execSync_def
      exampleWorld_def Let_def
      split: prod.splits)

theorem runExecutor_launch_result_witness:
  "fst (runExecutor exampleOptions (exampleSession [ChildExit (Some 2)]) exampleWorld)
     = Returned \<lparr>success = False, port = 4873\<rparr>
   \<and> fst (runExecutor exampleOptions (exampleSession []) exampleWorld) = Waiting"
  using runExecutor_launch_result [OF prepare_example, of "[ChildExit (Some 2)]"]
    runExecutor_launch_result [OF prepare_example, of "[]"]
  by (simp add: exampleSession_def exampleOptions_def startVerdaccio_def)

text \<open>
  The claim as stated has the returned promise pending for as long as the child runs. Here
  the child has only lost its channel to the parent and has not exited, and the
  orchestrator has returned.
\<close>

theorem runExecutor_disconnect_counterexample:
  "childRunning (child (exampleSession [ChildDisconnect]))
   \<and> fst (runExecutor exampleOptions (exampleSession [ChildDisconnect]) exampleWorld)
       = Returned \<lparr>success = False, port = 4873\<rparr>"
  by (simp add: childRunning_def runExecutor_def prepare_def exampleSession_def exampleOptions_def
      configureNpm_def getNpmRegistriesConfig_def mapNpmScopesToConfItems_def
      createScopedRegistryConfigItem_def npmRegistry_def getForLocation_def get_def
      new_NpmConfManager_def set_conf_def execSync_def exampleWorld_def startVerdaccio_def Let_def
      split: prod.splits)

section \<open>Properties of the folder copier\<close>

lemma stat_update: "p \<noteq> [] \<Longrightarrow> stat (AList.update p x fs) q = (if q = p then Some x else stat fs q)"
  by (simp add: stat_def AList.update_conv')

lemma stat_root [simp]: "stat fs [] = Some Dir"
  by (simp add: stat_def)

lemma mkdir_stat:
  assumes "mkdir p fs = (None, fs1)"
  shows "stat fs1 q = (if q = p then Some Dir else stat fs q)"
    and "stat fs p = None \<or> stat fs p = Some Dir"
proof -
  show "stat fs p = None \<or> stat fs p = Some Dir"
    using assms by (auto simp: mkdir_def split: option.splits entry.splits)
  show "stat fs1 q = (if q = p then Some Dir else stat fs q)"
  proof (cases "stat fs p")
    case None
    then have "p \<noteq> []" by auto
    with None assms show ?thesis by (auto simp: mkdir_def stat_update)
  next
    case (Some x)
    with assms show ?thesis by (auto simp: mkdir_def split: entry.splits)
  qed
qed

lemma forEach_mkdir:
  "forEach mkdir ps fs = (None, fs1) \<Longrightarrow>
   stat fs1 q = (if q \<in> set ps then Some Dir else stat fs q)
   \<and> (q \<in> set ps \<longrightarrow> stat fs q = None \<or> stat fs q = Some Dir)"
proof (induction ps arbitrary: fs)
  case Nil
  then show ?case by simp
next
  case (Cons p ps)
  obtain r fsa where m: "mkdir p fs = (r, fsa)" by (cases "mkdir p fs")
  with Cons.prems have r: "r = None" by (auto split: option.splits)
  with Cons.prems m have rest: "forEach mkdir ps fsa = (None, fs1)" by simp
  note ih = Cons.IH [OF rest]
  note a = mkdir_stat [OF m [unfolded r]]
  show ?case using ih a(2) by (auto simp: a(1) split: if_splits)
qed

lemma set_tl_prefixes: "set (tl (prefixes p)) = {q. prefix q p \<and> q \<noteq> []}"
  by (cases p) (auto simp: prefix_Cons)

lemma createDirectory_stat:
  assumes "createDirectory t fs = (None, fs1)"
  shows "stat fs1 q = (if prefix q t then Some Dir else stat fs q)"
    and "prefix q t \<Longrightarrow> stat fs q = None \<or> stat fs q = Some Dir"
proof -
  note a = forEach_mkdir [OF assms [unfolded createDirectory_def], of q]
  show "stat fs1 q = (if prefix q t then Some Dir else stat fs q)"
    using a by (cases "q = []") (auto simp: set_tl_prefixes)
  show "prefix q t \<Longrightarrow> stat fs q = None \<or> stat fs q = Some Dir"
    using a by (cases "q = []") (auto simp: set_tl_prefixes)
qed

lemma ensureDirectory_stat:
  assumes "ensureDirectory t fs = (None, fs1)"
  shows "stat fs1 t = Some Dir"
    and "stat fs1 q = stat fs q \<or> (prefix q t \<and> stat fs q = None \<and> stat fs1 q = Some Dir)"
proof -
  show "stat fs1 t = Some Dir"
    using assms createDirectory_stat(1) [of t fs fs1 t]
    by (auto simp: ensureDirectory_def directoryExists_def split: if_splits)
  show "stat fs1 q = stat fs q \<or> (prefix q t \<and> stat fs q = None \<and> stat fs1 q = Some Dir)"
  proof (cases "directoryExists fs t")
    case True
    with assms show ?thesis by (simp add: ensureDirectory_def)
  next
    case False
    with assms have c: "createDirectory t fs = (None, fs1)" by (simp add: ensureDirectory_def)
    from createDirectory_stat [OF c, of q] show ?thesis by auto
  qed
qed

lemma readdirSync_names:
  assumes "readdirSync fs p = Inr names"
  shows "distinct names" and "stat fs p = Some Dir"
    and "set names = {e. stat fs (p @ [e]) \<noteq> None}"
proof -
  from assms have d: "stat fs p = Some Dir"
    and n: "names = remdups (map (\<lambda>(q, e). last q) (filter (\<lambda>(q, e). q \<noteq> [] \<and> butlast q = p) fs))"
    by (auto simp: readdirSync_def split: option.splits entry.splits)
  show "distinct names" by (simp add: n)
  show "stat fs p = Some Dir" by (rule d)
  show "set names = {e. stat fs (p @ [e]) \<noteq> None}"
  proof (intro set_eqI iffI)
    fix e assume "e \<in> set names"
    then obtain q x where qx: "(q, x) \<in> set fs" "q \<noteq> []" "butlast q = p" "e = last q"
      by (auto simp: n)
    then have "q = p @ [e]" by (metis append_butlast_last_id)
    with qx(1) have "map_of fs (p @ [e]) \<noteq> None"
      by (metis map_of_eq_None_iff fst_conv image_eqI)
    then show "e \<in> {e. stat fs (p @ [e]) \<noteq> None}" by (simp add: stat_def)
  next
    fix e assume "e \<in> {e. stat fs (p @ [e]) \<noteq> None}"
    then obtain x where "map_of fs (p @ [e]) = Some x" by (auto simp: stat_def)
    then have "(p @ [e], x) \<in> set fs" by (rule map_of_SomeD)
    then show "e \<in> set names" by (force simp: n)
  qed
qed

lemma reach_missing: "stat fs d = None \<Longrightarrow> reach fs d p = None"
  by (cases p) auto

lemma reach_cong:
  "(\<And>q. stat fs1 (d @ q) = stat fs (d @ q)) \<Longrightarrow> reach fs1 d p = reach fs d p"
proof (induction p arbitrary: d)
  case Nil
  from Nil [of "[]"] show ?case by simp
next
  case (Cons e p)
  have "reach fs1 (d @ [e]) p = reach fs (d @ [e]) p"
    by (rule Cons.IH) (use Cons.prems [of "e # q" for q] in simp)
  moreover have "stat fs1 d = stat fs d" using Cons.prems [of "[]"] by simp
  ultimately show ?case by (simp split: option.splits entry.splits)
qed

lemma disjoint_paths:
  assumes "\<not> prefix f t" and "\<not> prefix t f"
  shows "\<not> prefix t (f @ p)" and "\<not> prefix (f @ p) t"
    and "\<not> prefix (f @ [e]) (t @ [e'])" and "\<not> prefix (t @ [e']) (f @ [e])"
proof -
  show 1: "\<not> prefix t (f @ p)"
    using assms by (metis prefix_same_cases prefixI)
  show 2: "\<not> prefix (f @ p) t"
    using assms by (meson append_prefixD)
  show "\<not> prefix (f @ [e]) (t @ [e'])"
    using assms by (metis append_prefixD prefix_snoc prefixI)
  show "\<not> prefix (t @ [e']) (f @ [e])"
    using assms by (metis append_prefixD prefix_snoc prefixI)
qed

lemma outsideKept_source:
  assumes "outsideKept t fs fs1" and "\<not> prefix f t" and "\<not> prefix t f"
  shows "stat fs1 (f @ p) = stat fs (f @ p)"
  using assms(1) disjoint_paths(1,2) [OF assms(2,3), of p]
  by (auto simp: outsideKept_def)

lemma outsideKept_refl: "outsideKept t fs fs"
  by (simp add: outsideKept_def)

lemma outsideKept_trans:
  "outsideKept t fs fs1 \<Longrightarrow> outsideKept t fs1 fs2 \<Longrightarrow> outsideKept t fs fs2"
  unfolding outsideKept_def by (metis option.distinct(1))

lemma outsideKept_child: "outsideKept (t @ [e]) fs fs1 \<Longrightarrow> outsideKept t fs fs1"
  unfolding outsideKept_def
  by (metis append_prefixD prefix_order.order_refl prefix_snoc)

lemma outsideKept_sibling:
  assumes "outsideKept (t @ [e]) fs fs1" and "e' \<noteq> e"
  shows "stat fs1 (t @ e' # p) = stat fs (t @ e' # p)"
proof -
  have a: "\<not> prefix (t @ [e]) (t @ e' # p)" using assms(2) by simp
  have b: "\<not> prefix (t @ e' # p) (t @ [e])" using assms(2) by simp
  from assms(1) a have "stat fs1 (t @ e' # p) = stat fs (t @ e' # p)
      \<or> (prefix (t @ e' # p) (t @ [e]) \<and> stat fs (t @ e' # p) = None
          \<and> stat fs1 (t @ e' # p) = Some Dir)"
    unfolding outsideKept_def by blast
  with b show ?thesis by blast
qed

lemma outsideKept_dir:
  assumes "outsideKept t fs fs1" and "stat fs q = Some Dir" and "\<not> prefix t q"
  shows "stat fs1 q = Some Dir"
  using assms by (auto simp: outsideKept_def)

lemma copyFolderSync_Suc:
  "copyFolderSync (Suc n) f t fs =
     (case ensureDirectory t fs of
        (Some e, fs1) \<Rightarrow> (Some e, fs1)
      | (None, fs1) \<Rightarrow>
          (case readdirSync fs1 f of
             Inl e \<Rightarrow> (Some e, fs1)
           | Inr names \<Rightarrow> forEach (copyElement n f t) names fs1))"
proof -
  have "copyElement n f t =
        (\<lambda>element fs2.
           case stat fs2 (f @ [element]) of
             None \<Rightarrow> (Some FsError, fs2)
           | Some (File b) \<Rightarrow>
               (case copyFileSync (f @ [element]) (t @ [element]) fs2 of
                  (Some e, fs3) \<Rightarrow> (Some CopyFailed, fs3)
                | (None, fs3) \<Rightarrow> (None, fs3))
           | Some Dir \<Rightarrow> copyFolderSync n (f @ [element]) (t @ [element]) fs2)"
    by (intro ext) (simp add: copyElement_def)
  then show ?thesis
    by (simp split: prod.splits option.splits sum.splits)
qed

lemma copyFileSync_stat:
  assumes "copyFileSync src dest fs = (None, fs1)"
  shows "\<exists>b. stat fs src = Some (File b)
           \<and> (\<forall>q. stat fs1 q = (if q = dest then Some (File b) else stat fs q))"
  using assms
  by (auto simp: copyFileSync_def stat_update split: option.splits entry.splits if_splits)

text \<open>One directory entry, given the property for the recursive calls.\<close>

lemma copyElement_copied:
  assumes ih: "\<And>f t fs fs'. copyFolderSync n f t fs = (None, fs') \<Longrightarrow> \<not> prefix f t \<Longrightarrow>
                 \<not> prefix t f \<Longrightarrow> outsideKept t fs fs' \<and> copiedInto f t fs fs'"
    and ok: "copyElement n f t e fs = (None, fs1)"
    and d: "\<not> prefix f t" "\<not> prefix t f"
  shows "outsideKept (t @ [e]) fs fs1 \<and> copiedInto (f @ [e]) (t @ [e]) fs fs1"
proof (cases "stat fs (f @ [e])")
  case None
  with ok show ?thesis by (simp add: copyElement_def)
next
  case (Some x)
  show ?thesis
  proof (cases x)
    case (File b)
    with Some ok have c: "copyFileSync (f @ [e]) (t @ [e]) fs = (None, fs1)"
      by (auto simp: copyElement_def split: prod.splits option.splits)
    from copyFileSync_stat [OF c] Some File
    have s: "\<And>q. stat fs1 q = (if q = t @ [e] then Some (File b) else stat fs q)"
      by auto
    have 1: "outsideKept (t @ [e]) fs fs1"
      by (auto simp: outsideKept_def s)
    have 2: "copiedInto (f @ [e]) (t @ [e]) fs fs1"
      unfolding copiedInto_def
    proof
      fix p
      show "stat fs1 ((t @ [e]) @ p) =
          (case reach fs (f @ [e]) p of Some x \<Rightarrow> Some x | None \<Rightarrow> stat fs ((t @ [e]) @ p))"
        by (cases p) (simp_all add: s Some File)
    qed
    from 1 2 show ?thesis by simp
  next
    case Dir
    with Some ok have c: "copyFolderSync n (f @ [e]) (t @ [e]) fs = (None, fs1)"
      by (simp add: copyElement_def)
    from ih [OF c disjoint_paths(3) [OF d] disjoint_paths(4) [OF d]]
    show ?thesis .
  qed
qed

text \<open>The loop over the directory entries.\<close>

lemma forEach_copyElement_copied:
  assumes ih: "\<And>f t fs fs'. copyFolderSync n f t fs = (None, fs') \<Longrightarrow> \<not> prefix f t \<Longrightarrow>
                 \<not> prefix t f \<Longrightarrow> outsideKept t fs fs' \<and> copiedInto f t fs fs'"
    and d: "\<not> prefix f t" "\<not> prefix t f"
  shows "distinct es \<Longrightarrow> stat fs0 t = Some Dir \<Longrightarrow>
     forEach (copyElement n f t) es fs0 = (None, fs') \<Longrightarrow>
     outsideKept t fs0 fs'
     \<and> stat fs' t = Some Dir
     \<and> (\<forall>e p. stat fs' (t @ e # p) =
          (if e \<in> set es
           then (case reach fs0 (f @ [e]) p of Some x \<Rightarrow> Some x | None \<Rightarrow> stat fs0 (t @ e # p))
           else stat fs0 (t @ e # p)))"
proof (induction es arbitrary: fs0)
  case Nil
  then show ?case by (simp add: outsideKept_refl)
next
  case (Cons e es)
  obtain r fs1 where st: "copyElement n f t e fs0 = (r, fs1)"
    by (cases "copyElement n f t e fs0")
  with Cons.prems(3) have r: "r = None" by (auto split: option.splits)
  with Cons.prems(3) st have rest: "forEach (copyElement n f t) es fs1 = (None, fs')" by simp
  from Cons.prems(1) have dis: "distinct es" and ne: "e \<notin> set es" by simp_all
  from copyElement_copied [OF ih st [unfolded r] d]
  have k1: "outsideKept (t @ [e]) fs0 fs1" and c1: "copiedInto (f @ [e]) (t @ [e]) fs0 fs1"
    by simp_all
  have k1': "outsideKept t fs0 fs1" by (rule outsideKept_child [OF k1])
  have t1: "stat fs1 t = Some Dir"
    by (rule outsideKept_dir [OF k1 Cons.prems(2)]) simp
  from Cons.IH [OF dis t1 rest]
  have k2: "outsideKept t fs1 fs'" and t2: "stat fs' t = Some Dir"
    and c2: "\<And>e' p. stat fs' (t @ e' # p) =
          (if e' \<in> set es
           then (case reach fs1 (f @ [e']) p of Some x \<Rightarrow> Some x | None \<Rightarrow> stat fs1 (t @ e' # p))
           else stat fs1 (t @ e' # p))"
    by simp_all
  have src: "\<And>e' p. reach fs1 (f @ [e']) p = reach fs0 (f @ [e']) p"
  proof (rule reach_cong)
    fix e' p q
    show "stat fs1 ((f @ [e']) @ q) = stat fs0 ((f @ [e']) @ q)"
      using outsideKept_source [OF k1' d, of "e' # q"] by simp
  qed
  have c: "\<And>e' p. stat fs' (t @ e' # p) =
          (if e' \<in> set (e # es)
           then (case reach fs0 (f @ [e']) p of Some x \<Rightarrow> Some x | None \<Rightarrow> stat fs0 (t @ e' # p))
           else stat fs0 (t @ e' # p))"
  proof -
    fix e' p
    show "stat fs' (t @ e' # p) =
          (if e' \<in> set (e # es)
           then (case reach fs0 (f @ [e']) p of Some x \<Rightarrow> Some x | None \<Rightarrow> stat fs0 (t @ e' # p))
           else stat fs0 (t @ e' # p))"
    proof (cases "e' = e")
      case True
      have "stat fs' (t @ e # p) = stat fs1 (t @ e # p)" using ne by (simp add: c2)
      also have "\<dots> = (case reach fs0 (f @ [e]) p of Some x \<Rightarrow> Some x | None \<Rightarrow> stat fs0 (t @ e # p))"
        using c1 [unfolded copiedInto_def, rule_format, of p] by (simp split: option.splits)
      finally show ?thesis using True by (simp cong: option.case_cong)
    next
      case False
      have "stat fs1 (t @ e' # p) = stat fs0 (t @ e' # p)"
        by (rule outsideKept_sibling [OF k1 False])
      with False show ?thesis by (simp add: c2 src cong: option.case_cong)
    qed
  qed
  from outsideKept_trans [OF k1' k2] t2 c show ?case by blast
qed

lemma copyFolderSync_copied:
  "copyFolderSync n f t fs = (None, fs') \<Longrightarrow> \<not> prefix f t \<Longrightarrow> \<not> prefix t f \<Longrightarrow>
   outsideKept t fs fs' \<and> copiedInto f t fs fs'"
proof (induction n arbitrary: f t fs fs')
  case 0
  then show ?case by simp
next
  case (Suc n)
  note d = Suc.prems(2,3)
  from Suc.prems(1) [unfolded copyFolderSync_Suc] obtain fs1 names where
    en: "ensureDirectory t fs = (None, fs1)" and
    rd: "readdirSync fs1 f = Inr names" and
    lp: "forEach (copyElement n f t) names fs1 = (None, fs')"
    by (auto split: prod.splits option.splits sum.splits)
  note e1 = ensureDirectory_stat(1) [OF en]
  note e2 = ensureDirectory_stat(2) [OF en]
  have k0: "outsideKept t fs fs1"
    using e2 by (auto simp: outsideKept_def)
  note n = readdirSync_names [OF rd]
  from forEach_copyElement_copied [OF Suc.IH d n(1) e1 lp]
  have k1: "outsideKept t fs1 fs'" and t1: "stat fs' t = Some Dir"
    and c1: "\<And>e p. stat fs' (t @ e # p) =
          (if e \<in> set names
           then (case reach fs1 (f @ [e]) p of Some x \<Rightarrow> Some x | None \<Rightarrow> stat fs1 (t @ e # p))
           else stat fs1 (t @ e # p))"
    by simp_all
  have srcs: "\<And>q. stat fs1 (f @ q) = stat fs (f @ q)"
    by (rule outsideKept_source [OF k0 d])
  have fdir: "stat fs f = Some Dir" using srcs [of "[]"] n(2) by simp
  have src: "\<And>e p. reach fs1 (f @ [e]) p = reach fs (f @ [e]) p"
  proof (rule reach_cong)
    fix e p q
    show "stat fs1 ((f @ [e]) @ q) = stat fs ((f @ [e]) @ q)"
      using srcs [of "e # q"] by simp
  qed
  have below: "\<And>e p. stat fs1 (t @ e # p) = stat fs (t @ e # p)"
    using e2 by (metis append.right_neutral list.distinct(1) same_prefix_nil)
  have "copiedInto f t fs fs'"
    unfolding copiedInto_def
  proof
    fix p
    show "stat fs' (t @ p) = (case reach fs f p of Some x \<Rightarrow> Some x | None \<Rightarrow> stat fs (t @ p))"
    proof (cases p)
      case Nil
      with t1 fdir show ?thesis by simp
    next
      case (Cons e p')
      show ?thesis
      proof (cases "e \<in> set names")
        case True
        then show ?thesis by (simp add: Cons c1 src below fdir cong: option.case_cong)
      next
        case False
        then have "stat fs1 (f @ [e]) = None" by (simp add: n(3))
        then have "stat fs (f @ [e]) = None" using srcs [of "[e]"] by simp
        then have "reach fs (f @ [e]) p' = None" by (rule reach_missing)
        with False show ?thesis by (simp add: Cons c1 below fdir cong: option.case_cong)
      qed
    qed
  qed
  with outsideKept_trans [OF k0 k1] show ?case by simp
qed

lemma reach_Some_iff:
  "reach fs d p = Some x \<longleftrightarrow>
     stat fs (d @ p) = Some x \<and> (\<forall>q. strict_prefix q p \<longrightarrow> stat fs (d @ q) = Some Dir)"
proof (induction p arbitrary: d)
  case Nil
  show ?case by simp
next
  case (Cons e p)
  have "(\<forall>q. strict_prefix q (e # p) \<longrightarrow> stat fs (d @ q) = Some Dir) \<longleftrightarrow>
        stat fs d = Some Dir \<and> (\<forall>q. strict_prefix q p \<longrightarrow> stat fs ((d @ [e]) @ q) = Some Dir)"
  proof
    assume a: "\<forall>q. strict_prefix q (e # p) \<longrightarrow> stat fs (d @ q) = Some Dir"
    have "stat fs d = Some Dir" using a [rule_format, of "[]"] by simp
    moreover have "\<forall>q. strict_prefix q p \<longrightarrow> stat fs ((d @ [e]) @ q) = Some Dir"
      using a by (auto dest: spec [of _ "e # q" for q])
    ultimately show "stat fs d = Some Dir \<and> (\<forall>q. strict_prefix q p \<longrightarrow> stat fs ((d @ [e]) @ q) = Some Dir)"
      by simp
  next
    assume b: "stat fs d = Some Dir \<and> (\<forall>q. strict_prefix q p \<longrightarrow> stat fs ((d @ [e]) @ q) = Some Dir)"
    show "\<forall>q. strict_prefix q (e # p) \<longrightarrow> stat fs (d @ q) = Some Dir"
    proof (intro allI impI)
      fix q assume "strict_prefix q (e # p)"
      then show "stat fs (d @ q) = Some Dir"
        using b by (cases q) auto
    qed
  qed
  then show ?case
    by (auto simp: Cons.IH [of "d @ [e]"] split: option.splits entry.splits)
qed

lemma copiedInto_reach:
  assumes "copiedInto f t fs fs'" and "reach fs f p = Some x"
  shows "reach fs' t p = Some x"
proof -
  from assms(2) have a: "stat fs (f @ p) = Some x"
    and b: "\<And>q. strict_prefix q p \<Longrightarrow> stat fs (f @ q) = Some Dir"
    by (simp_all add: reach_Some_iff)
  have "stat fs' (t @ p) = Some x"
    using assms by (simp add: copiedInto_def)
  moreover have "\<And>q. strict_prefix q p \<Longrightarrow> stat fs' (t @ q) = Some Dir"
  proof -
    fix q assume q: "strict_prefix q p"
    have "reach fs f q = Some Dir"
      unfolding reach_Some_iff using b [OF q] b q
      by (meson prefix_order.less_trans)
    with assms(1) show "stat fs' (t @ q) = Some Dir" by (simp add: copiedInto_def)
  qed
  ultimately show ?thesis by (simp add: reach_Some_iff)
qed

text \<open>
  Claim C9, as amended. Let \<^verbatim>\<open>copyFolderSync(D, D')\<close> complete without error, for two
  folders neither of which lies inside the other. Every file at a relative path under
  \<open>D\<close> is then at the same relative path under \<open>D'\<close>, with the same bytes. Every file under
  \<open>D'\<close> is such a copy or was at that path of \<open>D'\<close> before the call. When nothing was at or
  below \<open>D'\<close> before the call, the files under \<open>D'\<close> are exactly those under \<open>D\<close>, by path and
  by content. The files under \<open>D\<close> are not changed.
\<close>

theorem copyFolderSync_files:
  assumes "copyFolderSync n from to fs = (None, fs')"
    and "\<not> prefix from to" and "\<not> prefix to from"
  shows "(\<forall>p b. fileUnder fs from p = Some b \<longrightarrow> fileUnder fs' to p = Some b)
       \<and> (\<forall>p b. fileUnder fs' to p = Some b \<longrightarrow>
             fileUnder fs from p = Some b \<or> stat fs (to @ p) = Some (File b))
       \<and> ((\<forall>q. prefix to q \<longrightarrow> stat fs q = None) \<longrightarrow>
             (\<forall>p. fileUnder fs' to p = fileUnder fs from p))
       \<and> (\<forall>p. fileUnder fs' from p = fileUnder fs from p)"
proof -
  from copyFolderSync_copied [OF assms]
  have k: "outsideKept to fs fs'" and c: "copiedInto from to fs fs'" by simp_all
  have A: "\<And>p x. reach fs from p = Some x \<Longrightarrow> reach fs' to p = Some x"
    by (rule copiedInto_reach [OF c])
  have B: "\<And>p x. reach fs' to p = Some x \<Longrightarrow> reach fs from p = Some x \<or> stat fs (to @ p) = Some x"
  proof -
    fix p x assume "reach fs' to p = Some x"
    then have "stat fs' (to @ p) = Some x" by (simp add: reach_Some_iff)
    with c show "reach fs from p = Some x \<or> stat fs (to @ p) = Some x"
      by (auto simp: copiedInto_def split: option.splits)
  qed
  have D: "\<And>p. reach fs' from p = reach fs from p"
  proof -
    fix p
    have "reach fs' (from @ []) p = reach fs (from @ []) p"
      by (rule reach_cong) (use outsideKept_source [OF k assms(2,3)] in simp)
    then show "reach fs' from p = reach fs from p" by simp
  qed
  have 1: "\<forall>p b. fileUnder fs from p = Some b \<longrightarrow> fileUnder fs' to p = Some b"
    using A by (auto simp: fileUnder_def split: option.splits entry.splits)
  have 2: "\<forall>p b. fileUnder fs' to p = Some b \<longrightarrow>
             fileUnder fs from p = Some b \<or> stat fs (to @ p) = Some (File b)"
  proof (intro allI impI)
    fix p b assume "fileUnder fs' to p = Some b"
    then have "reach fs' to p = Some (File b)"
      by (auto simp: fileUnder_def split: option.splits entry.splits)
    from B [OF this] show "fileUnder fs from p = Some b \<or> stat fs (to @ p) = Some (File b)"
      by (auto simp: fileUnder_def)
  qed
  have 3: "(\<forall>q. prefix to q \<longrightarrow> stat fs q = None) \<longrightarrow>
             (\<forall>p. fileUnder fs' to p = fileUnder fs from p)"
  proof (intro allI impI)
    fix p assume n: "\<forall>q. prefix to q \<longrightarrow> stat fs q = None"
    show "fileUnder fs' to p = fileUnder fs from p"
    proof (cases "reach fs from p")
      case None
      have "stat fs (to @ p) = None" using n by simp
      with B [of p] None have "reach fs' to p = None"
        by (cases "reach fs' to p") auto
      with None show ?thesis by (simp add: fileUnder_def)
    next
      case (Some x)
      with A [OF Some] show ?thesis by (simp add: fileUnder_def)
    qed
  qed
  have 4: "\<forall>p. fileUnder fs' from p = fileUnder fs from p"
    by (simp add: fileUnder_def D)
  from 1 2 3 4 show ?thesis by blast
qed

theorem copyFolderSync_files_witness:
  "fileUnder (snd (copyFolderSync 5 [''dist'', ''ui''] [''publish''] exampleFs))
      [''publish''] [''lib'', ''a.js''] = Some ''B''
   \<and> fileUnder (snd (copyFolderSync 5 [''dist'', ''ui''] [''publish''] exampleFs))
      [''publish''] [''old.txt''] = None"
proof -
  let ?r = "copyFolderSync 5 [''dist'', ''ui''] [''publish''] exampleFs"
  have "fst ?r = None" by code_simp
  then have h: "?r = (None, snd ?r)" by (metis prod.collapse)
  have d1: "\<not> prefix [''dist'', ''ui''] [''publish'']" by simp
  have d2: "\<not> prefix [''publish''] [''dist'', ''ui'']" by simp
  have src: "fileUnder exampleFs [''dist'', ''ui''] [''lib'', ''a.js''] = Some ''B''"
    by code_simp
  have none: "fileUnder exampleFs [''dist'', ''ui''] [''old.txt''] = None"
    by code_simp
  have absent: "\<forall>q. prefix [''publish''] q \<longrightarrow> stat exampleFs q = None"
    by (auto simp: stat_def exampleFs_def)
  note t = copyFolderSync_files [OF h d1 d2]
  from t have "fileUnder exampleFs [''dist'', ''ui''] [''lib'', ''a.js''] = Some ''B'' \<longrightarrow>
      fileUnder (snd ?r) [''publish''] [''lib'', ''a.js''] = Some ''B''"
    by blast
  with src have 1: "fileUnder (snd ?r) [''publish''] [''lib'', ''a.js''] = Some ''B''"
    by (rule rev_mp)
  from t absent have "fileUnder (snd ?r) [''publish''] [''old.txt'']
      = fileUnder exampleFs [''dist'', ''ui''] [''old.txt'']"
    by blast
  then have 2: "fileUnder (snd ?r) [''publish''] [''old.txt''] = None"
    using none by (rule trans)
  from 1 2 show ?thesis by (rule conjI)
qed

text \<open>
  The claim as stated has the two folders hold the same relative paths after the copy.
  The folder \<^verbatim>\<open>out\<close> held \<^verbatim>\<open>old.txt\<close> before the copy and holds it after, and
  \<^verbatim>\<open>dist/ui\<close> has no such file.
\<close>

theorem copyFolderSync_existing_file_counterexample:
  "fst (copyFolderSync 5 [''dist'', ''ui''] [''out''] exampleFs) = None
   \<and> fileUnder (snd (copyFolderSync 5 [''dist'', ''ui''] [''out''] exampleFs))
        [''out''] [''old.txt''] = Some ''C''
   \<and> fileUnder exampleFs [''dist'', ''ui''] [''old.txt''] = None"
  by code_simp

section \<open>Properties of the manifest merger\<close>

lemma orEmpty_simps [simp]: "orEmpty None = []" "orEmpty (Some xs) = xs"
  by (simp_all add: orEmpty_def)

lemma hasDependency_declared:
  "hasDependency pj name = Inr b \<Longrightarrow> b = declared pj name"
  by (auto simp: hasDependency_def declared_def orEmpty_def split: option.splits)

lemma assignDependency_Inr:
  assumes "assignDependency d pj = Inr pj'"
  shows "dependencies pj \<noteq> None"
    and "pj' = pj\<lparr>dependencies :=
            Some (AList.update (npm_packageName d) (npm_version d) (orEmpty (dependencies pj)))\<rparr>"
  using assms by (auto simp: assignDependency_def orEmpty_def split: option.splits)

lemma addDependency_plain:
  assumes "addDependency d ToDependencies pj = Inr pj'"
  shows "pj' = pj\<lparr>dependencies :=
            Some (AList.update (npm_packageName d) (npm_version d) (orEmpty (dependencies pj)))\<rparr>"
  using assms assignDependency_Inr(2) [of d pj pj'] by (simp add: addDependency_def)

lemma addDependency_bundled:
  assumes "addDependency d ToBundledDependencies pj = Inr pj'"
  shows "pj' = pj\<lparr>bundleDependencies := Some (orEmpty (bundleDependencies pj) @ [npm_packageName d]),
                  dependencies :=
            Some (AList.update (npm_packageName d) (npm_version d) (orEmpty (dependencies pj)))\<rparr>"
proof -
  from assms obtain b where b: "bundleDependencies pj = Some b"
    and a: "assignDependency d (pj\<lparr>bundleDependencies := Some (b @ [npm_packageName d])\<rparr>) = Inr pj'"
    by (auto simp: addDependency_def split: option.splits)
  from assignDependency_Inr(2) [OF a] b show ?thesis by (simp add: orEmpty_def)
qed

text \<open>What one step of either loop does to the manifest.\<close>

lemma addLibDependency_cases:
  assumes "addLibDependency h n info l (pj, fs) = (r, pj', fs')"
  shows "pj' = pj
       \<or> (r = None \<and> \<not> declared pj (lib_packageName l)
           \<and> (\<exists>copied.
                copyFolderSyncFrom n (lib_distPath l)
                   (join (publishNodeModulesPath info) (lib_packageName l)) fs = (None, fs')
                \<and> getPackageJson h fs'
                   (join (join (publishNodeModulesPath info) (lib_packageName l)) ''package.json'')
                     = Inr copied
                \<and> pj' = pj\<lparr>bundleDependencies :=
                               Some (orEmpty (bundleDependencies pj) @ [lib_packageName l]),
                            dependencies :=
                               Some (AList.update (lib_packageName l) (version copied)
                                       (orEmpty (dependencies pj)))\<rparr>))"
proof (cases "hasDependency pj (lib_packageName l)")
  case (Inl e)
  with assms show ?thesis by (simp add: addLibDependency_def)
next
  case (Inr b)
  note hd = hasDependency_declared [OF Inr]
  show ?thesis
  proof (cases b)
    case True
    with Inr assms show ?thesis by (simp add: addLibDependency_def)
  next
    case False
    obtain r1 fs1 where c: "copyFolderSyncFrom n (lib_distPath l)
        (join (publishNodeModulesPath info) (lib_packageName l)) fs = (r1, fs1)"
      by (cases "copyFolderSyncFrom n (lib_distPath l)
        (join (publishNodeModulesPath info) (lib_packageName l)) fs")
    show ?thesis
    proof (cases r1)
      case (Some e)
      with assms Inr False c show ?thesis by (simp add: addLibDependency_def)
    next
      case None
      show ?thesis
      proof (cases "getPackageJson h fs1
          (join (join (publishNodeModulesPath info) (lib_packageName l)) ''package.json'')")
        case (Inl e)
        with assms Inr False c None show ?thesis by (simp add: addLibDependency_def)
      next
        case g: (Inr copied)
        show ?thesis
        proof (cases "addDependency \<lparr>npm_packageName = lib_packageName l, npm_version = version copied\<rparr>
                        ToBundledDependencies pj")
          case (Inl e)
          with assms Inr False c None g show ?thesis by (simp add: addLibDependency_def)
        next
          case a: (Inr pj2)
          with assms Inr False c None g have "r = None" "pj' = pj2" "fs' = fs1"
            by (simp_all add: addLibDependency_def)
          with addDependency_bundled [OF a] c None g hd False show ?thesis by auto
        qed
      qed
    qed
  qed
qed

lemma addNpmDependency_cases:
  assumes "addNpmDependency d (pj, fs) = (r, pj', fs')"
  shows "fs' = fs
       \<and> (pj' = pj
          \<or> (\<not> declared pj (npm_packageName d)
              \<and> pj' = pj\<lparr>dependencies :=
                     Some (AList.update (npm_packageName d) (npm_version d)
                             (orEmpty (dependencies pj)))\<rparr>))"
proof (cases "hasDependency pj (npm_packageName d)")
  case (Inl e)
  with assms show ?thesis by (simp add: addNpmDependency_def)
next
  case (Inr b)
  note hd = hasDependency_declared [OF Inr]
  show ?thesis
  proof (cases b)
    case True
    with Inr assms show ?thesis by (simp add: addNpmDependency_def)
  next
    case False
    show ?thesis
    proof (cases "addDependency d ToDependencies pj")
      case (Inl e)
      with assms Inr False show ?thesis by (simp add: addNpmDependency_def)
    next
      case a: (Inr pj2)
      with assms Inr False have "pj' = pj2" "fs' = fs" by (simp_all add: addNpmDependency_def)
      with addDependency_plain [OF a] hd False show ?thesis by simp
    qed
  qed
qed

text \<open>A declared name keeps its entries through a step, and through a loop.\<close>

lemma keeps_refl: "declared pj k \<Longrightarrow> keeps k pj pj"
  by (simp add: keeps_def)

lemma keeps_trans: "keeps k a b \<Longrightarrow> keeps k b c \<Longrightarrow> keeps k a c"
  by (simp add: keeps_def)

lemma keeps_added:
  assumes "declared pj k" and "name \<noteq> k"
  shows "keeps k pj (pj\<lparr>dependencies := Some (AList.update name v (orEmpty (dependencies pj)))\<rparr>)"
    and "keeps k pj (pj\<lparr>bundleDependencies := Some (orEmpty (bundleDependencies pj) @ [name]),
                       dependencies := Some (AList.update name v (orEmpty (dependencies pj)))\<rparr>)"
  using assms
  by (auto simp: keeps_def declared_def orEmpty_def AList.update_conv' AList.dom_update)

lemma addLibDependency_keeps:
  assumes "declared pj k" and "addLibDependency h n info l (pj, fs) = (r, pj', fs')"
  shows "keeps k pj pj'"
  using addLibDependency_cases [OF assms(2)]
proof
  assume "pj' = pj"
  with assms(1) show ?thesis by (simp add: keeps_refl)
next
  assume a: "r = None \<and> \<not> declared pj (lib_packageName l)
           \<and> (\<exists>copied.
                copyFolderSyncFrom n (lib_distPath l)
                   (join (publishNodeModulesPath info) (lib_packageName l)) fs = (None, fs')
                \<and> getPackageJson h fs'
                   (join (join (publishNodeModulesPath info) (lib_packageName l)) ''package.json'')
                     = Inr copied
                \<and> pj' = pj\<lparr>bundleDependencies :=
                               Some (orEmpty (bundleDependencies pj) @ [lib_packageName l]),
                            dependencies :=
                               Some (AList.update (lib_packageName l) (version copied)
                                       (orEmpty (dependencies pj)))\<rparr>)"
  then have ne: "lib_packageName l \<noteq> k" using assms(1) by auto
  from a keeps_added(2) [OF assms(1) ne] show ?thesis by auto
qed

lemma addNpmDependency_keeps:
  assumes "declared pj k" and "addNpmDependency d (pj, fs) = (r, pj', fs')"
  shows "keeps k pj pj'"
proof -
  from addNpmDependency_cases [OF assms(2)]
  have "pj' = pj \<or> (\<not> declared pj (npm_packageName d)
              \<and> pj' = pj\<lparr>dependencies :=
                     Some (AList.update (npm_packageName d) (npm_version d)
                             (orEmpty (dependencies pj)))\<rparr>)"
    by simp
  then show ?thesis
  proof
    assume "pj' = pj"
    with assms(1) show ?thesis by (simp add: keeps_refl)
  next
    assume a: "\<not> declared pj (npm_packageName d)
              \<and> pj' = pj\<lparr>dependencies :=
                     Some (AList.update (npm_packageName d) (npm_version d)
                             (orEmpty (dependencies pj)))\<rparr>"
    then have ne: "npm_packageName d \<noteq> k" using assms(1) by auto
    from a keeps_added(1) [OF assms(1) ne] show ?thesis by simp
  qed
qed

lemma forEach_keeps:
  assumes step: "\<And>x pj fs r pj' fs'. declared pj k \<Longrightarrow> f x (pj, fs) = (r, pj', fs') \<Longrightarrow> keeps k pj pj'"
  shows "declared pj k \<Longrightarrow> forEach f xs (pj, fs) = (r, pj', fs') \<Longrightarrow> keeps k pj pj'"
proof (induction xs arbitrary: pj fs)
  case Nil
  then show ?case by (simp add: keeps_refl)
next
  case (Cons x xs)
  obtain r1 pj1 fs1 where s: "f x (pj, fs) = (r1, pj1, fs1)" by (cases "f x (pj, fs)")
  note k1 = step [OF Cons.prems(1) s]
  show ?case
  proof (cases r1)
    case (Some e)
    with Cons.prems(2) s have "pj' = pj1" by simp
    with k1 show ?thesis by simp
  next
    case None
    with Cons.prems(2) s have rest: "forEach f xs (pj1, fs1) = (r, pj', fs')" by simp
    from k1 have "declared pj1 k" by (simp add: keeps_def)
    from keeps_trans [OF k1 Cons.IH [OF this rest]] show ?thesis .
  qed
qed

lemma forEach_addNpmDependency_bundle:
  "forEach addNpmDependency ds (pj, fs) = (r, pj', fs') \<Longrightarrow>
   bundleDependencies pj' = bundleDependencies pj"
proof (induction ds arbitrary: pj fs)
  case Nil
  then show ?case by simp
next
  case (Cons d ds)
  obtain r1 pj1 fs1 where s: "addNpmDependency d (pj, fs) = (r1, pj1, fs1)"
    by (cases "addNpmDependency d (pj, fs)")
  from addNpmDependency_cases [OF s] have b: "bundleDependencies pj1 = bundleDependencies pj"
    by auto
  show ?case
  proof (cases r1)
    case (Some e)
    with Cons.prems s b show ?thesis by simp
  next
    case None
    with Cons.prems s have "forEach addNpmDependency ds (pj1, fs1) = (r, pj', fs')" by simp
    from Cons.IH [OF this] b show ?thesis by simp
  qed
qed

text \<open>Every name that the loop over the libraries appends to the list.\<close>

lemma forEach_addLibDependency_bundled:
  "forEach (addLibDependency h n info) ls (pj, fs) = (None, pj', fs') \<Longrightarrow>
   name \<in> set (orEmpty (bundleDependencies pj')) \<Longrightarrow>
   name \<in> set (orEmpty (bundleDependencies pj))
   \<or> (\<exists>v. readBack h n info (pj, fs) ls name v
          \<and> declared pj' name \<and> map_of (orEmpty (dependencies pj')) name = Some v)"
proof (induction ls arbitrary: pj fs)
  case Nil
  then show ?case by simp
next
  case (Cons l ls)
  obtain r1 pj1 fs1 where s: "addLibDependency h n info l (pj, fs) = (r1, pj1, fs1)"
    by (cases "addLibDependency h n info l (pj, fs)")
  with Cons.prems(1) have r1: "r1 = None" by (auto split: option.splits)
  with Cons.prems(1) s have rest: "forEach (addLibDependency h n info) ls (pj1, fs1) = (None, pj', fs')"
    by simp
  from Cons.IH [OF rest Cons.prems(2)] show ?case
  proof
    assume in1: "name \<in> set (orEmpty (bundleDependencies pj1))"
    from addLibDependency_cases [OF s] show ?thesis
    proof
      assume "pj1 = pj"
      with in1 show ?thesis by simp
    next
      assume a: "r1 = None \<and> \<not> declared pj (lib_packageName l)
           \<and> (\<exists>copied.
                copyFolderSyncFrom n (lib_distPath l)
                   (join (publishNodeModulesPath info) (lib_packageName l)) fs = (None, fs1)
                \<and> getPackageJson h fs1
                   (join (join (publishNodeModulesPath info) (lib_packageName l)) ''package.json'')
                     = Inr copied
                \<and> pj1 = pj\<lparr>bundleDependencies :=
                               Some (orEmpty (bundleDependencies pj) @ [lib_packageName l]),
                            dependencies :=
                               Some (AList.update (lib_packageName l) (version copied)
                                       (orEmpty (dependencies pj)))\<rparr>)"
      then obtain copied where
        nd: "\<not> declared pj (lib_packageName l)" and
        c: "copyFolderSyncFrom n (lib_distPath l)
              (join (publishNodeModulesPath info) (lib_packageName l)) fs = (None, fs1)" and
        g: "getPackageJson h fs1
              (join (join (publishNodeModulesPath info) (lib_packageName l)) ''package.json'')
                = Inr copied" and
        p: "pj1 = pj\<lparr>bundleDependencies :=
                        Some (orEmpty (bundleDependencies pj) @ [lib_packageName l]),
                      dependencies :=
                        Some (AList.update (lib_packageName l) (version copied)
                                (orEmpty (dependencies pj)))\<rparr>"
        by blast
      show ?thesis
      proof (cases "name \<in> set (orEmpty (bundleDependencies pj))")
        case True
        then show ?thesis by simp
      next
        case False
        with in1 p have nm: "name = lib_packageName l" by simp
        have rb: "readBack h n info (pj, fs) (l # ls) name (version copied)"
          unfolding readBack_def
          by (rule exI [of _ "[]"], rule exI [of _ l], rule exI [of _ ls], rule exI [of _ pj],
              rule exI [of _ fs], rule exI [of _ fs1], rule exI [of _ copied])
             (use nm nd c g in simp)
        have d1: "declared pj1 name"
          by (simp add: p nm declared_def orEmpty_def AList.dom_update)
        have v1: "map_of (orEmpty (dependencies pj1)) name = Some (version copied)"
          by (simp add: p nm orEmpty_def AList.update_conv')
        from forEach_keeps [of name "addLibDependency h n info", OF addLibDependency_keeps d1 rest]
        have "keeps name pj1 pj'" .
        with v1 have "declared pj' name \<and> map_of (orEmpty (dependencies pj')) name = Some (version copied)"
          by (simp add: keeps_def)
        with rb show ?thesis by blast
      qed
    qed
  next
    assume "\<exists>v. readBack h n info (pj1, fs1) ls name v
          \<and> declared pj' name \<and> map_of (orEmpty (dependencies pj')) name = Some v"
    then obtain v where rb: "readBack h n info (pj1, fs1) ls name v"
      and dv: "declared pj' name \<and> map_of (orEmpty (dependencies pj')) name = Some v"
      by blast
    from rb obtain ls1 lib ls2 pj0 fs0 fs2 copied where
      x: "ls = ls1 @ lib # ls2" "lib_packageName lib = name"
         "forEach (addLibDependency h n info) ls1 (pj1, fs1) = (None, pj0, fs0)"
         "\<not> declared pj0 name"
         "copyFolderSyncFrom n (lib_distPath lib)
              (join (publishNodeModulesPath info) name) fs0 = (None, fs2)"
         "getPackageJson h fs2
              (join (join (publishNodeModulesPath info) name) ''package.json'') = Inr copied"
         "v = version copied"
      unfolding readBack_def by blast
    have "readBack h n info (pj, fs) (l # ls) name v"
      unfolding readBack_def
      by (rule exI [of _ "l # ls1"], rule exI [of _ lib], rule exI [of _ ls2], rule exI [of _ pj0],
          rule exI [of _ fs0], rule exI [of _ fs2], rule exI [of _ copied])
         (use x s r1 in simp)
    with dv show ?thesis by blast
  qed
qed

lemma readBack_name: "readBack h n info s ls name v \<Longrightarrow> name \<in> lib_packageName ` set ls"
  unfolding readBack_def by force

lemma withDefaults_fields [simp]:
  "orEmpty (dependencies (withDefaults d)) = orEmpty (dependencies d)"
  "orEmpty (devDependencies (withDefaults d)) = orEmpty (devDependencies d)"
  "orEmpty (peerDependencies (withDefaults d)) = orEmpty (peerDependencies d)"
  "orEmpty (optionalDependencies (withDefaults d)) = orEmpty (optionalDependencies d)"
  "orEmpty (bundleDependencies (withDefaults d)) = orEmpty (bundleDependencies d)"
  by (simp_all add: withDefaults_def orEmpty_def)

lemma declared_withDefaults [simp]: "declared (withDefaults d) k = declared d k"
  by (simp add: declared_def)

text \<open>The two loops of \<^verbatim>\<open>updateDependencies2\<close>, one after the other.\<close>

lemma updateDependencies2_loops:
  assumes "updateDependencies2 h n info fs = (r, pj, fs')"
  shows "\<exists>r1 pj1 fs1.
           forEach (addLibDependency h n info) (libDeps info)
             (withDefaults (publishPackageJson info), fs) = (r1, pj1, fs1)
           \<and> (pj = pj1 \<and> r1 \<noteq> None \<and> r = r1
              \<or> r1 = None \<and> (\<exists>r2 fs2. forEach addNpmDependency (npmDeps info) (pj1, fs1) = (r2, pj, fs2)
                    \<and> (r = None \<longrightarrow> r2 = None)))"
proof -
  obtain r1 pj1 fs1 where a: "forEach (addLibDependency h n info) (libDeps info)
             (withDefaults (publishPackageJson info), fs) = (r1, pj1, fs1)"
    by (metis prod.collapse)
  show ?thesis
  proof (cases r1)
    case (Some e)
    with a assms have "pj = pj1 \<and> r = r1" by (auto simp: updateDependencies2_def)
    with a Some show ?thesis by blast
  next
    case None
    obtain r2 pj2 fs2 where b: "forEach addNpmDependency (npmDeps info) (pj1, fs1) = (r2, pj2, fs2)"
      by (metis prod.collapse)
    with a None assms have "pj = pj2 \<and> (r = None \<longrightarrow> r2 = None)"
      by (cases r2) (auto simp: updateDependencies2_def split: prod.splits)
    with a None b show ?thesis by blast
  qed
qed
text \<open>
  Claim C1. A package name that is a key of dependencies, peerDependencies,
  optionalDependencies or devDependencies of the destination manifest has, in the manifest
  that the merger ends with, the entry it had: its entry in dependencies is the same, or
  still absent; the other three maps are as they were; and the name is in
  bundleDependencies as many times as before. This holds whether the merger completes or
  throws.
\<close>

theorem updateDependencies2_keeps_declared:
  assumes "updateDependencies2 h n projectInfo fs = (r, packageJson, fs')"
    and "declared (publishPackageJson projectInfo) name"
  shows "map_of (orEmpty (dependencies packageJson)) name
           = map_of (orEmpty (dependencies (publishPackageJson projectInfo))) name
       \<and> orEmpty (devDependencies packageJson)
           = orEmpty (devDependencies (publishPackageJson projectInfo))
       \<and> orEmpty (peerDependencies packageJson)
           = orEmpty (peerDependencies (publishPackageJson projectInfo))
       \<and> orEmpty (optionalDependencies packageJson)
           = orEmpty (optionalDependencies (publishPackageJson projectInfo))
       \<and> count_list (orEmpty (bundleDependencies packageJson)) name
           = count_list (orEmpty (bundleDependencies (publishPackageJson projectInfo))) name"
proof -
  let ?d = "withDefaults (publishPackageJson projectInfo)"
  have d0: "declared ?d name" using assms(2) by simp
  from updateDependencies2_loops [OF assms(1)] obtain r1 pj1 fs1 where
    l1: "forEach (addLibDependency h n projectInfo) (libDeps projectInfo) (?d, fs) = (r1, pj1, fs1)"
    and l2: "packageJson = pj1 \<and> r1 \<noteq> None \<and> r = r1
              \<or> r1 = None \<and> (\<exists>r2 fs2. forEach addNpmDependency (npmDeps projectInfo) (pj1, fs1)
                                = (r2, packageJson, fs2) \<and> (r = None \<longrightarrow> r2 = None))"
    by blast
  have k1: "keeps name ?d pj1"
    by (rule forEach_keeps [of name "addLibDependency h n projectInfo", OF addLibDependency_keeps d0 l1])
  have "keeps name ?d packageJson"
    using l2
  proof
    assume "packageJson = pj1 \<and> r1 \<noteq> None \<and> r = r1"
    with k1 show ?thesis by simp
  next
    assume "r1 = None \<and> (\<exists>r2 fs2. forEach addNpmDependency (npmDeps projectInfo) (pj1, fs1)
                                = (r2, packageJson, fs2) \<and> (r = None \<longrightarrow> r2 = None))"
    then obtain r2 fs2 where
      n: "forEach addNpmDependency (npmDeps projectInfo) (pj1, fs1) = (r2, packageJson, fs2)"
      by blast
    from k1 have d1: "declared pj1 name" by (simp add: keeps_def)
    have "keeps name pj1 packageJson"
      by (rule forEach_keeps [of name addNpmDependency, OF addNpmDependency_keeps d1 n])
    with k1 show ?thesis by (rule keeps_trans)
  qed
  then show ?thesis by (simp add: keeps_def)
qed

theorem updateDependencies2_keeps_declared_witness:
  "map_of (orEmpty (dependencies (fst (snd (updateDependencies2 exampleHost 5 exampleInfo bundleFs)))))
      ''lodash'' = Some (Some ''4.17.0'')"
proof -
  let ?u = "updateDependencies2 exampleHost 5 exampleInfo bundleFs"
  have h1: "?u = (fst ?u, fst (snd ?u), snd (snd ?u))" by simp
  have h2: "declared (publishPackageJson exampleInfo) ''lodash''"
    by (simp add: declared_def exampleInfo_def emptyPackageJson_def)
  from updateDependencies2_keeps_declared [OF h1 h2] show ?thesis
    by (simp add: exampleInfo_def emptyPackageJson_def)
qed

text \<open>A step of the loop over the libraries that ends without an exception.\<close>

lemma addLibDependency_None:
  assumes "addLibDependency h n info l (pj, fs) = (None, pj', fs')"
  shows "(declared pj (lib_packageName l) \<and> pj' = pj \<and> fs' = fs)
       \<or> (\<not> declared pj (lib_packageName l)
           \<and> (\<exists>copied.
                copyFolderSyncFrom n (lib_distPath l)
                   (join (publishNodeModulesPath info) (lib_packageName l)) fs = (None, fs')
                \<and> getPackageJson h fs'
                   (join (join (publishNodeModulesPath info) (lib_packageName l)) ''package.json'')
                     = Inr copied
                \<and> pj' = pj\<lparr>bundleDependencies :=
                               Some (orEmpty (bundleDependencies pj) @ [lib_packageName l]),
                            dependencies :=
                               Some (AList.update (lib_packageName l) (version copied)
                                       (orEmpty (dependencies pj)))\<rparr>))"
proof (cases "hasDependency pj (lib_packageName l)")
  case (Inl e)
  with assms show ?thesis by (simp add: addLibDependency_def)
next
  case (Inr b)
  note hd = hasDependency_declared [OF Inr]
  show ?thesis
  proof (cases b)
    case True
    with Inr assms hd show ?thesis by (simp add: addLibDependency_def)
  next
    case False
    obtain r1 fs1 where c: "copyFolderSyncFrom n (lib_distPath l)
        (join (publishNodeModulesPath info) (lib_packageName l)) fs = (r1, fs1)"
      by (cases "copyFolderSyncFrom n (lib_distPath l)
        (join (publishNodeModulesPath info) (lib_packageName l)) fs")
    show ?thesis
    proof (cases r1)
      case (Some e)
      with assms Inr False c show ?thesis by (simp add: addLibDependency_def)
    next
      case None
      show ?thesis
      proof (cases "getPackageJson h fs1
          (join (join (publishNodeModulesPath info) (lib_packageName l)) ''package.json'')")
        case (Inl e)
        with assms Inr False c None show ?thesis by (simp add: addLibDependency_def)
      next
        case g: (Inr copied)
        show ?thesis
        proof (cases "addDependency \<lparr>npm_packageName = lib_packageName l, npm_version = version copied\<rparr>
                        ToBundledDependencies pj")
          case (Inl e)
          with assms Inr False c None g show ?thesis by (simp add: addLibDependency_def)
        next
          case a: (Inr pj2)
          with assms Inr False c None g have "pj' = pj2" "fs' = fs1"
            by (simp_all add: addLibDependency_def)
          with addDependency_bundled [OF a] c None g hd False show ?thesis by auto
        qed
      qed
    qed
  qed
qed

text \<open>The version read back for a library, seen from one step earlier in the loop.\<close>

lemma readBack_here:
  assumes "\<not> declared pj (lib_packageName l)"
    and "copyFolderSyncFrom n (lib_distPath l)
           (join (publishNodeModulesPath info) (lib_packageName l)) fs = (None, fs1)"
    and "getPackageJson h fs1
           (join (join (publishNodeModulesPath info) (lib_packageName l)) ''package.json'')
             = Inr copied"
  shows "readBack h n info (pj, fs) (l # ls) (lib_packageName l) (version copied)"
  unfolding readBack_def
  by (rule exI [of _ "[]"], rule exI [of _ l], rule exI [of _ ls], rule exI [of _ pj],
      rule exI [of _ fs], rule exI [of _ fs1], rule exI [of _ copied])
     (use assms in simp)

lemma readBack_later:
  assumes "addLibDependency h n info l (pj, fs) = (None, pj1, fs1)"
    and "readBack h n info (pj1, fs1) ls name v"
  shows "readBack h n info (pj, fs) (l # ls) name v"
proof -
  from assms(2) obtain ls1 lib ls2 pj0 fs0 fs2 copied where
    x: "ls = ls1 @ lib # ls2" "lib_packageName lib = name"
       "forEach (addLibDependency h n info) ls1 (pj1, fs1) = (None, pj0, fs0)"
       "\<not> declared pj0 name"
       "copyFolderSyncFrom n (lib_distPath lib)
            (join (publishNodeModulesPath info) name) fs0 = (None, fs2)"
       "getPackageJson h fs2
            (join (join (publishNodeModulesPath info) name) ''package.json'') = Inr copied"
       "v = version copied"
    unfolding readBack_def by blast
  show ?thesis
    unfolding readBack_def
    by (rule exI [of _ "l # ls1"], rule exI [of _ lib], rule exI [of _ ls2], rule exI [of _ pj0],
        rule exI [of _ fs0], rule exI [of _ fs2], rule exI [of _ copied])
       (use x assms(1) in simp)
qed

text \<open>
  The loop over the libraries only appends to the list, and every name it appends is the
  name of a library that it copied.
\<close>

lemma forEach_addLibDependency_appended:
  "forEach (addLibDependency h n info) ls (pj, fs) = (None, pj', fs') \<Longrightarrow>
   \<exists>added. orEmpty (bundleDependencies pj') = orEmpty (bundleDependencies pj) @ added
      \<and> (\<forall>name \<in> set added. \<exists>v. readBack h n info (pj, fs) ls name v)"
proof (induction ls arbitrary: pj fs)
  case Nil
  then show ?case by simp
next
  case (Cons l ls)
  obtain r1 pj1 fs1 where s0: "addLibDependency h n info l (pj, fs) = (r1, pj1, fs1)"
    by (cases "addLibDependency h n info l (pj, fs)")
  with Cons.prems have r1: "r1 = None" by (auto split: option.splits)
  from s0 r1 have s: "addLibDependency h n info l (pj, fs) = (None, pj1, fs1)" by simp
  with Cons.prems have rest: "forEach (addLibDependency h n info) ls (pj1, fs1) = (None, pj', fs')"
    by simp
  from Cons.IH [OF rest] obtain added1 where
    b1: "orEmpty (bundleDependencies pj') = orEmpty (bundleDependencies pj1) @ added1"
    and rb1: "\<forall>name \<in> set added1. \<exists>v. readBack h n info (pj1, fs1) ls name v"
    by blast
  from rb1 have rb: "\<forall>name \<in> set added1. \<exists>v. readBack h n info (pj, fs) (l # ls) name v"
    using readBack_later [OF s] by blast
  from addLibDependency_None [OF s] show ?case
  proof
    assume "declared pj (lib_packageName l) \<and> pj1 = pj \<and> fs1 = fs"
    with b1 rb show ?thesis by auto
  next
    assume "\<not> declared pj (lib_packageName l)
           \<and> (\<exists>copied.
                copyFolderSyncFrom n (lib_distPath l)
                   (join (publishNodeModulesPath info) (lib_packageName l)) fs = (None, fs1)
                \<and> getPackageJson h fs1
                   (join (join (publishNodeModulesPath info) (lib_packageName l)) ''package.json'')
                     = Inr copied
                \<and> pj1 = pj\<lparr>bundleDependencies :=
                               Some (orEmpty (bundleDependencies pj) @ [lib_packageName l]),
                            dependencies :=
                               Some (AList.update (lib_packageName l) (version copied)
                                       (orEmpty (dependencies pj)))\<rparr>)"
    then obtain copied where
      nd: "\<not> declared pj (lib_packageName l)" and
      c: "copyFolderSyncFrom n (lib_distPath l)
            (join (publishNodeModulesPath info) (lib_packageName l)) fs = (None, fs1)" and
      g: "getPackageJson h fs1
            (join (join (publishNodeModulesPath info) (lib_packageName l)) ''package.json'')
              = Inr copied" and
      p: "pj1 = pj\<lparr>bundleDependencies :=
                      Some (orEmpty (bundleDependencies pj) @ [lib_packageName l]),
                    dependencies :=
                      Some (AList.update (lib_packageName l) (version copied)
                              (orEmpty (dependencies pj)))\<rparr>"
      by blast
    have b: "orEmpty (bundleDependencies pj') =
        orEmpty (bundleDependencies pj) @ (lib_packageName l # added1)"
      by (simp add: b1 p)
    have "\<exists>v. readBack h n info (pj, fs) (l # ls) (lib_packageName l) v"
      using readBack_here [OF nd c g] by blast
    with rb have "\<forall>name \<in> set (lib_packageName l # added1).
        \<exists>v. readBack h n info (pj, fs) (l # ls) name v"
      by simp
    with b show ?thesis by blast
  qed
qed

text \<open>
  A library that the loop copied is, when the loop has ended, a key of dependencies with
  the version that was read back for it.
\<close>

lemma forEach_addLibDependency_readBack:
  assumes "forEach (addLibDependency h n info) ls (pj, fs) = (None, pj', fs')"
    and "readBack h n info (pj, fs) ls name v"
  shows "declared pj' name \<and> map_of (orEmpty (dependencies pj')) name = Some v"
proof -
  from assms(2) obtain ls1 lib ls2 pj0 fs0 fs1 copied where
    x: "ls = ls1 @ lib # ls2" "lib_packageName lib = name"
       "forEach (addLibDependency h n info) ls1 (pj, fs) = (None, pj0, fs0)"
       "\<not> declared pj0 name"
       "copyFolderSyncFrom n (lib_distPath lib)
            (join (publishNodeModulesPath info) name) fs0 = (None, fs1)"
       "getPackageJson h fs1
            (join (join (publishNodeModulesPath info) name) ''package.json'') = Inr copied"
       "v = version copied"
    unfolding readBack_def by blast
  from assms(1) x(1,3) have
    tl: "forEach (addLibDependency h n info) (lib # ls2) (pj0, fs0) = (None, pj', fs')"
    by (simp add: forEach_append)
  obtain r1 pj1 fs2 where s0: "addLibDependency h n info lib (pj0, fs0) = (r1, pj1, fs2)"
    by (cases "addLibDependency h n info lib (pj0, fs0)")
  with tl have r1: "r1 = None" by (auto split: option.splits)
  from s0 r1 have s: "addLibDependency h n info lib (pj0, fs0) = (None, pj1, fs2)" by simp
  with tl have rest: "forEach (addLibDependency h n info) ls2 (pj1, fs2) = (None, pj', fs')"
    by simp
  from addLibDependency_None [OF s] x(2,4,5,6) have
    p: "pj1 = pj0\<lparr>bundleDependencies := Some (orEmpty (bundleDependencies pj0) @ [name]),
                   dependencies := Some (AList.update name (version copied)
                                           (orEmpty (dependencies pj0)))\<rparr>"
    by auto
  have d1: "declared pj1 name"
    by (simp add: p declared_def AList.dom_update)
  have v1: "map_of (orEmpty (dependencies pj1)) name = Some v"
    by (simp add: p x(7) AList.update_conv')
  from forEach_keeps [of name "addLibDependency h n info", OF addLibDependency_keeps d1 rest]
  have "keeps name pj1 pj'" .
  with v1 show ?thesis by (simp add: keeps_def)
qed

text \<open>What the written manifest keeps of the object.\<close>

lemma map_of_definedEntries:
  "map_of es k = Some (Some s) \<Longrightarrow> map_of (definedEntries es) k = Some (Some s)"
  by (induction es) (auto simp: definedEntries_def split: if_splits)

lemma serializeJson_fields:
  "bundleDependencies (serializeJson pj) = bundleDependencies pj"
  "orEmpty (dependencies (serializeJson pj)) = definedEntries (orEmpty (dependencies pj))"
  by (simp_all add: serializeJson_def orEmpty_def definedEntries_def split: option.splits)

text \<open>
  Claim C3, as amended. After a successful run of the merger, the bundleDependencies list
  of the written manifest is the list of the destination manifest followed by the names
  that the merger appended. Every appended name is the name of a library that the merger
  copied, with one version read back from the manifest of the copy; when that manifest
  has a version, the name is a key of dependencies in the written manifest, with that
  version. Nothing is said of an entry that the destination manifest already had, nor of
  a library whose copy has no version.
\<close>

theorem updateDependencies2_bundled_versions:
  assumes "updateDependencies2 h n projectInfo fs = (None, packageJson, fs')"
  shows "\<exists>added.
           orEmpty (bundleDependencies (serializeJson packageJson))
             = orEmpty (bundleDependencies (publishPackageJson projectInfo)) @ added
           \<and> (\<forall>name \<in> set added.
                (\<exists>!v. readBack h n projectInfo (withDefaults (publishPackageJson projectInfo), fs)
                        (libDeps projectInfo) name v)
                \<and> (\<forall>s. readBack h n projectInfo (withDefaults (publishPackageJson projectInfo), fs)
                          (libDeps projectInfo) name (Some s) \<longrightarrow>
                        map_of (orEmpty (dependencies (serializeJson packageJson))) name
                          = Some (Some s)))"
proof -
  let ?d = "withDefaults (publishPackageJson projectInfo)"
  from updateDependencies2_loops [OF assms] obtain pj1 fs1 r2 fs2 where
    l1: "forEach (addLibDependency h n projectInfo) (libDeps projectInfo) (?d, fs) = (None, pj1, fs1)"
    and l2: "forEach addNpmDependency (npmDeps projectInfo) (pj1, fs1) = (r2, packageJson, fs2)"
    by blast
  have b: "bundleDependencies packageJson = bundleDependencies pj1"
    by (rule forEach_addNpmDependency_bundle [OF l2])
  from forEach_addLibDependency_appended [OF l1] obtain added where
    a1: "orEmpty (bundleDependencies pj1) = orEmpty (bundleDependencies ?d) @ added"
    and a2: "\<forall>name \<in> set added. \<exists>v. readBack h n projectInfo (?d, fs) (libDeps projectInfo) name v"
    by blast
  have 1: "orEmpty (bundleDependencies (serializeJson packageJson))
      = orEmpty (bundleDependencies (publishPackageJson projectInfo)) @ added"
    using a1 b by (simp add: serializeJson_fields)
  have 2: "map_of (orEmpty (dependencies (serializeJson packageJson))) name = Some (Some s)"
    if rb: "readBack h n projectInfo (?d, fs) (libDeps projectInfo) name (Some s)" for name s
  proof -
    from forEach_addLibDependency_readBack [OF l1 rb]
    have d1: "declared pj1 name" and v1: "map_of (orEmpty (dependencies pj1)) name = Some (Some s)"
      by simp_all
    have "keeps name pj1 packageJson"
      by (rule forEach_keeps [of name addNpmDependency, OF addNpmDependency_keeps d1 l2])
    with v1 have "map_of (orEmpty (dependencies packageJson)) name = Some (Some s)"
      by (simp add: keeps_def)
    then show ?thesis
      by (simp add: serializeJson_fields map_of_definedEntries)
  qed
  have 3: "v' = v"
    if "readBack h n projectInfo (?d, fs) (libDeps projectInfo) name v"
      and "readBack h n projectInfo (?d, fs) (libDeps projectInfo) name v'" for name v v'
    using forEach_addLibDependency_readBack [OF l1 that(1)]
      forEach_addLibDependency_readBack [OF l1 that(2)] by simp
  have "\<forall>name \<in> set added.
      (\<exists>!v. readBack h n projectInfo (?d, fs) (libDeps projectInfo) name v)
      \<and> (\<forall>s. readBack h n projectInfo (?d, fs) (libDeps projectInfo) name (Some s) \<longrightarrow>
              map_of (orEmpty (dependencies (serializeJson packageJson))) name = Some (Some s))"
  proof
    fix name assume "name \<in> set added"
    with a2 obtain v where v: "readBack h n projectInfo (?d, fs) (libDeps projectInfo) name v"
      by blast
    have "\<exists>!v. readBack h n projectInfo (?d, fs) (libDeps projectInfo) name v"
      using v 3 [OF v] by blast
    with 2 show "(\<exists>!v. readBack h n projectInfo (?d, fs) (libDeps projectInfo) name v)
      \<and> (\<forall>s. readBack h n projectInfo (?d, fs) (libDeps projectInfo) name (Some s) \<longrightarrow>
              map_of (orEmpty (dependencies (serializeJson packageJson))) name = Some (Some s))"
      by blast
  qed
  with 1 show ?thesis by blast
qed

theorem updateDependencies2_bundled_versions_witness:
  "map_of (orEmpty (dependencies (serializeJson
      (fst (snd (updateDependencies2 exampleHost 5 exampleInfo bundleFs)))))) ''@acme/ui''
     = Some (Some ''1.2.3'')"
proof -
  let ?u = "updateDependencies2 exampleHost 5 exampleInfo bundleFs"
  let ?d = "withDefaults (publishPackageJson exampleInfo)"
  let ?to = "join (publishNodeModulesPath exampleInfo) ''@acme/ui''"
  let ?c = "copyFolderSyncFrom 5 (lib_distPath uiLib) ?to bundleFs"
  have "fst ?u = None" by code_simp
  then have h1: "?u = (None, fst (snd ?u), snd (snd ?u))" by (metis prod.collapse)
  have nd: "\<not> declared ?d (lib_packageName uiLib)" by code_simp
  have "fst ?c = None" by code_simp
  then have c: "copyFolderSyncFrom 5 (lib_distPath uiLib)
      (join (publishNodeModulesPath exampleInfo) (lib_packageName uiLib)) bundleFs = (None, snd ?c)"
    by (metis prod.collapse uiLib_def BundableLibDependency.select_convs(2))
  have g: "getPackageJson exampleHost (snd ?c)
      (join (join (publishNodeModulesPath exampleInfo) (lib_packageName uiLib)) ''package.json'')
        = Inr (emptyPackageJson\<lparr>version := Some ''1.2.3''\<rparr>)"
    by code_simp
  have "readBack exampleHost 5 exampleInfo (?d, bundleFs) (uiLib # [])
      (lib_packageName uiLib) (version (emptyPackageJson\<lparr>version := Some ''1.2.3''\<rparr>))"
    by (rule readBack_here [OF nd c g])
  then have rb: "readBack exampleHost 5 exampleInfo (?d, bundleFs) (libDeps exampleInfo)
      ''@acme/ui'' (Some ''1.2.3'')"
    by (simp add: exampleInfo_def uiLib_def)
  have bl: "orEmpty (bundleDependencies (serializeJson (fst (snd ?u)))) = [''legacy'', ''@acme/ui'']"
    by code_simp
  have old: "orEmpty (bundleDependencies (publishPackageJson exampleInfo)) = [''legacy'']"
    by (simp add: exampleInfo_def emptyPackageJson_def)
  from updateDependencies2_bundled_versions [OF h1] obtain added where
    a: "orEmpty (bundleDependencies (serializeJson (fst (snd ?u))))
          = orEmpty (bundleDependencies (publishPackageJson exampleInfo)) @ added"
    and k: "\<forall>name \<in> set added. \<forall>s.
          readBack exampleHost 5 exampleInfo (?d, bundleFs) (libDeps exampleInfo) name (Some s) \<longrightarrow>
          map_of (orEmpty (dependencies (serializeJson (fst (snd ?u))))) name = Some (Some s)"
    by blast
  from a bl old have "added = [''@acme/ui'']" by simp
  with k rb show ?thesis by simp
qed

text \<open>
  The claim as stated covers the entries that the destination manifest had before the
  merge. The destination manifest lists \<^verbatim>\<open>legacy\<close> as bundled and does not declare it; the
  merger completes, \<^verbatim>\<open>legacy\<close> is still in the list of the written manifest, and it is not
  a key of its dependencies.
\<close>

theorem updateDependencies2_legacy_entry_counterexample:
  "fst (updateDependencies2 exampleHost 5 exampleInfo bundleFs) = None
   \<and> ''legacy'' \<in> set (orEmpty (bundleDependencies (serializeJson
        (fst (snd (updateDependencies2 exampleHost 5 exampleInfo bundleFs))))))
   \<and> map_of (orEmpty (dependencies (serializeJson
        (fst (snd (updateDependencies2 exampleHost 5 exampleInfo bundleFs)))))) ''legacy'' = None"
  by code_simp

text \<open>
  A library whose copy has no version: the merger completes, the object it ends with has
  the key \<^verbatim>\<open>@acme/ui\<close> with the value \<^verbatim>\<open>undefined\<close>, and the written manifest lists the
  name as bundled without having it as a key of dependencies.
\<close>

lemma updateDependencies2_versionless_copy:
  "fst (updateDependencies2 exampleHost 5 exampleInfo versionlessFs) = None
   \<and> map_of (orEmpty (dependencies
        (fst (snd (updateDependencies2 exampleHost 5 exampleInfo versionlessFs))))) ''@acme/ui''
       = Some None
   \<and> ''@acme/ui'' \<in> set (orEmpty (bundleDependencies (serializeJson
        (fst (snd (updateDependencies2 exampleHost 5 exampleInfo versionlessFs))))))
   \<and> map_of (orEmpty (dependencies (serializeJson
        (fst (snd (updateDependencies2 exampleHost 5 exampleInfo versionlessFs)))))) ''@acme/ui''
       = None"
  by code_simp

section \<open>Properties of the dependency classifier\<close>

lemma getProjectDependencies_valid:
  "l \<in> set (fst (getProjectDependencies h ctx)) \<Longrightarrow>
   validForNewPackages h (lib_packageName l)"
  by (auto simp: getProjectDependencies_def toLibDependency_def Let_def)

lemma getProjectInfoPlusPlus_deps:
  "getProjectInfoPlusPlus h n ctx outputPath fs = (Inr projectInfo, fs1) \<Longrightarrow>
   libDeps projectInfo = fst (getProjectDependencies h ctx)
   \<and> npmDeps projectInfo = snd (getProjectDependencies h ctx)"
  by (auto simp: getProjectInfoPlusPlus_def split: prod.splits list.splits sum.splits option.splits)

text \<open>
  Claim C7, as amended. A library dependency whose package name fails the validation is
  not among the libraries that the classifier returns. When the merger runs on those
  libraries and completes, that name is in the bundleDependencies list of the resulting
  manifest only if the destination manifest listed it already: the merger does not add it.
\<close>

theorem invalid_library_not_bundled:
  assumes "dep \<in> set (ctx_dependencies ctx @ ctx_topLevelDependencies ctx)"
    and "isLibNode dep"
    and "\<not> validForNewPackages h (dep_name dep)"
    and "libDeps projectInfo = fst (getProjectDependencies h ctx)"
    and "updateDependencies2 h n projectInfo fs = (None, packageJson, fs')"
  shows "dep_name dep \<notin> lib_packageName ` set (fst (getProjectDependencies h ctx))
       \<and> (dep_name dep \<in> set (orEmpty (bundleDependencies packageJson)) \<longrightarrow>
            dep_name dep \<in> set (orEmpty (bundleDependencies (publishPackageJson projectInfo))))"
proof -
  let ?d = "withDefaults (publishPackageJson projectInfo)"
  have 1: "dep_name dep \<notin> lib_packageName ` set (fst (getProjectDependencies h ctx))"
    using assms(3) getProjectDependencies_valid [of _ h ctx] by auto
  have 2: "dep_name dep \<in> set (orEmpty (bundleDependencies packageJson)) \<longrightarrow>
            dep_name dep \<in> set (orEmpty (bundleDependencies (publishPackageJson projectInfo)))"
  proof
    assume a: "dep_name dep \<in> set (orEmpty (bundleDependencies packageJson))"
    from updateDependencies2_loops [OF assms(5)] obtain pj1 fs1 r2 fs2 where
      l1: "forEach (addLibDependency h n projectInfo) (libDeps projectInfo) (?d, fs) = (None, pj1, fs1)"
      and l2: "forEach addNpmDependency (npmDeps projectInfo) (pj1, fs1) = (r2, packageJson, fs2)"
      by blast
    from forEach_addNpmDependency_bundle [OF l2] a
    have "dep_name dep \<in> set (orEmpty (bundleDependencies pj1))" by simp
    from forEach_addLibDependency_bundled [OF l1 this]
    show "dep_name dep \<in> set (orEmpty (bundleDependencies (publishPackageJson projectInfo)))"
    proof
      assume "dep_name dep \<in> set (orEmpty (bundleDependencies ?d))"
      then show ?thesis by simp
    next
      assume "\<exists>v. readBack h n projectInfo (?d, fs) (libDeps projectInfo) (dep_name dep) v
          \<and> declared pj1 (dep_name dep) \<and> map_of (orEmpty (dependencies pj1)) (dep_name dep) = Some v"
      then obtain v where "readBack h n projectInfo (?d, fs) (libDeps projectInfo) (dep_name dep) v"
        by blast
      from readBack_name [OF this] 1 assms(4) show ?thesis by simp
    qed
  qed
  from 1 2 show ?thesis by simp
qed

theorem invalid_library_not_bundled_witness:
  "''Bad Name'' \<notin> lib_packageName ` set (fst (getProjectDependencies exampleHost exampleContext))
   \<and> ''Bad Name'' \<notin> set (orEmpty (bundleDependencies
        (fst (snd (updateDependencies2 exampleHost 5
           (exampleInfo\<lparr>libDeps := fst (getProjectDependencies exampleHost exampleContext)\<rparr>)
           bundleFs)))))"
proof -
  let ?i = "exampleInfo\<lparr>libDeps := fst (getProjectDependencies exampleHost exampleContext)\<rparr>"
  let ?u = "updateDependencies2 exampleHost 5 ?i bundleFs"
  let ?dep = "ctx_dependencies exampleContext ! 1"
  have n: "dep_name ?dep = ''Bad Name''" by (simp add: exampleContext_def)
  have h1: "?dep \<in> set (ctx_dependencies exampleContext @ ctx_topLevelDependencies exampleContext)"
    by (simp add: exampleContext_def)
  have h2: "isLibNode ?dep" by (simp add: exampleContext_def isLibNode_def)
  have h3: "\<not> validForNewPackages exampleHost (dep_name ?dep)"
    by (simp add: exampleContext_def exampleHost_def)
  have h4: "libDeps ?i = fst (getProjectDependencies exampleHost exampleContext)" by simp
  have "fst ?u = None" by code_simp
  then have h5: "?u = (None, fst (snd ?u), snd (snd ?u))" by (metis prod.collapse)
  have d: "''Bad Name'' \<notin> set (orEmpty (bundleDependencies (publishPackageJson ?i)))"
    by (simp add: exampleInfo_def emptyPackageJson_def)
  from invalid_library_not_bundled [OF h1 h2 h3 h4 h5] d show ?thesis
    unfolding n by blast
qed

text \<open>
  The claim as stated has the name never appear in the list. The workspace has the library
  \<^verbatim>\<open>Bad Name\<close>, whose name is not valid, and the destination manifest lists that name; the
  merger completes and the name is in the list of the resulting manifest.
\<close>

theorem invalid_library_listed_counterexample:
  "isLibNode (ctx_dependencies exampleContext ! 1)
   \<and> dep_name (ctx_dependencies exampleContext ! 1) = ''Bad Name''
   \<and> validForNewPackages exampleHost ''Bad Name'' = False
   \<and> libDeps legacyInfo = fst (getProjectDependencies exampleHost exampleContext)
   \<and> fst (updateDependencies2 exampleHost 5 legacyInfo bundleFs) = None
   \<and> ''Bad Name'' \<in> set (orEmpty (bundleDependencies
        (fst (snd (updateDependencies2 exampleHost 5 legacyInfo bundleFs)))))"
proof -
  have 1: "isLibNode (ctx_dependencies exampleContext ! 1)
      \<and> dep_name (ctx_dependencies exampleContext ! 1) = ''Bad Name''
      \<and> validForNewPackages exampleHost ''Bad Name'' = False"
    by (simp add: exampleContext_def isLibNode_def exampleHost_def)
  have 2: "libDeps legacyInfo = fst (getProjectDependencies exampleHost exampleContext)"
    by (simp add: legacyInfo_def)
  have 3: "fst (updateDependencies2 exampleHost 5 legacyInfo bundleFs) = None
      \<and> ''Bad Name'' \<in> set (orEmpty (bundleDependencies
            (fst (snd (updateDependencies2 exampleHost 5 legacyInfo bundleFs)))))"
    by code_simp
  from 1 2 3 show ?thesis by simp
qed

end
